theory Spec2Isabelle
  imports Complex_Main "HOL-Library.AList" "HOL-Library.Sublist"
begin

section \<open>JavaScript numbers and the values held in decoded event arguments\<close>

text \<open>
  The indexer (\<^verbatim>\<open>backend/src/indexer/indexer.service.ts\<close>) converts event fields with
  \<^verbatim>\<open>Number(...)\<close>, adds them with \<^verbatim>\<open>+\<close> and tests them with \<^verbatim>\<open>Number.isFinite\<close>.
  A JavaScript number is an IEEE-754 binary64 value. Every number the projection computes
  is a non-negative integer, \<^verbatim>\<open>Infinity\<close> or \<^verbatim>\<open>NaN\<close>, so a finite number is
  represented by the natural number it denotes.
\<close>

datatype jsnum = Num nat | PosInf | NaN

fun bitlen :: "nat \<Rightarrow> nat" where
  "bitlen n = (if n = 0 then 0 else Suc (bitlen (n div 2)))"

declare bitlen.simps [simp del]

text \<open>
  The natural number nearest to \<open>n / d\<close>, the even one of the two if \<open>n / d\<close> lies half-way.
\<close>

definition roundHalfEven :: "nat \<Rightarrow> nat \<Rightarrow> nat" where
  "roundHalfEven n d =
     (let q = n div d; r = n mod d
      in if 2 * r < d then q
         else if d < 2 * r then q + 1
         else if even q then q
         else q + 1)"

text \<open>
  Rounding of a natural number to the nearest binary64 value, ties to even: integers below
  \<open>2^53\<close> are represented exactly, larger ones keep their 53 leading bits.
\<close>

definition roundToDouble :: "nat \<Rightarrow> nat" where
  "roundToDouble n =
     (if n < 2 ^ 53 then n
      else let e = bitlen n - 53 in roundHalfEven n (2 ^ e) * 2 ^ e)"

text \<open>Values from \<open>2^1024 - 2^970\<close> on round to \<^verbatim>\<open>Infinity\<close>.\<close>

definition toDouble :: "nat \<Rightarrow> jsnum" where
  "toDouble n = (if 2 ^ 1024 - 2 ^ 970 \<le> n then PosInf else Num (roundToDouble n))"

text \<open>The \<^verbatim>\<open>+\<close> of two numbers: the exact sum, rounded.\<close>

fun js_add :: "jsnum \<Rightarrow> jsnum \<Rightarrow> jsnum" where
  "js_add (Num a) (Num b) = toDouble (a + b)"
| "js_add NaN _ = NaN"
| "js_add (Num a) NaN = NaN"
| "js_add PosInf NaN = NaN"
| "js_add (Num a) PosInf = PosInf"
| "js_add PosInf (Num b) = PosInf"
| "js_add PosInf PosInf = PosInf"

definition isFinite :: "jsnum \<Rightarrow> bool" where
  "isFinite x = (case x of Num _ \<Rightarrow> True | _ \<Rightarrow> False)"

text \<open>
  The events of \<^verbatim>\<open>contracts/contracts/Ballot.sol\<close> carry unsigned integers, which ethers
  decodes to \<^verbatim>\<open>bigint\<close>, and addresses, which it decodes to a string \<^verbatim>\<open>0x...\<close>.
  \<^verbatim>\<open>decodeLog\<close> replaces each bigint \<open>v\<close> by \<^verbatim>\<open>v.toString()\<close>. The strings of the
  model are therefore of two shapes: \<open>DecStr n\<close> is the decimal string of \<open>n\<close>, and
  \<open>HexStr h\<close> is the string \<^verbatim>\<open>0x\<close> followed by \<open>h\<close>. Two such strings are equal exactly
  when their representations are.
\<close>

datatype jsstring = DecStr nat | HexStr string

datatype jsval = JUndefined | JString jsstring

definition hexDigit :: "char \<Rightarrow> nat option" where
  "hexDigit c =
     (let k = (of_char c :: nat) in
      if 48 \<le> k \<and> k \<le> 57 then Some (k - 48)
      else if 97 \<le> k \<and> k \<le> 102 then Some (k - 87)
      else if 65 \<le> k \<and> k \<le> 70 then Some (k - 55)
      else None)"

fun hexValue :: "nat \<Rightarrow> string \<Rightarrow> nat option" where
  "hexValue acc [] = Some acc"
| "hexValue acc (c # cs) =
     (case hexDigit c of None \<Rightarrow> None | Some d \<Rightarrow> hexValue (16 * acc + d) cs)"

text \<open>
  \<^verbatim>\<open>Number(v)\<close>: \<^verbatim>\<open>undefined\<close> gives \<^verbatim>\<open>NaN\<close>; a decimal string gives the nearest
  number; \<^verbatim>\<open>0x\<close> followed by hexadecimal digits is a hexadecimal literal, and
  \<^verbatim>\<open>0x\<close> followed by anything else is not a numeric literal.
\<close>

definition Number :: "jsval \<Rightarrow> jsnum" where
  "Number v =
     (case v of
        JUndefined \<Rightarrow> NaN
      | JString (DecStr n) \<Rightarrow> toDouble n
      | JString (HexStr h) \<Rightarrow>
          (if h = [] then NaN
           else case hexValue 0 h of None \<Rightarrow> NaN | Some n \<Rightarrow> toDouble n))"

text \<open>An upper-case ASCII letter (codes 65 to 90) becomes lower-case by setting bit 5.\<close>

definition lowerChar :: "char \<Rightarrow> char" where
  "lowerChar c =
     (let k = (of_char c :: nat) in
      if 65 \<le> k \<and> k \<le> 90
      then (case c of Char b0 b1 b2 b3 b4 b5 b6 b7 \<Rightarrow> Char b0 b1 b2 b3 b4 True b6 b7)
      else c)"

fun toLowerCase :: "jsstring \<Rightarrow> jsstring" where
  "toLowerCase (DecStr n) = DecStr n"
| "toLowerCase (HexStr h) = HexStr (map lowerChar h)"

section \<open>Decoding a log entry\<close>

text \<open>
  A value as ethers hands it over, before \<^verbatim>\<open>decodeLog\<close>: a bigint or an address string.
  The keys of \<^verbatim>\<open>Object.entries(args)\<close> are either numeric (\<^verbatim>\<open>Number(k)\<close> is not
  \<^verbatim>\<open>NaN\<close>: positions) or names.
\<close>

datatype ethval = EBigint nat | EAddress string

datatype argkey = Index nat | Name string

record argsJson =
  named :: "string \<rightharpoonup> jsval"
  positional :: "jsval list"

definition emptyArgs :: argsJson where
  "emptyArgs = \<lparr>named = Map.empty, positional = []\<rparr>"

text \<open>\<^verbatim>\<open>typeof v === "bigint" ? v.toString() : v\<close>\<close>

fun convertVal :: "ethval \<Rightarrow> jsval" where
  "convertVal (EBigint n) = JString (DecStr n)"
| "convertVal (EAddress h) = JString (HexStr h)"

text \<open>
  \<^verbatim>\<open>positional[i] = val\<close> on a JavaScript array: an index past the end extends the array,
  and the holes read as \<^verbatim>\<open>undefined\<close>.
\<close>

definition setIndex :: "jsval list \<Rightarrow> nat \<Rightarrow> jsval \<Rightarrow> jsval list" where
  "setIndex xs i v =
     (if i < length xs then xs[i := v]
      else xs @ replicate (i - length xs) JUndefined @ [v])"

fun collectArgs :: "(argkey \<times> ethval) list \<Rightarrow> argsJson \<Rightarrow> argsJson" where
  "collectArgs [] a = a"
| "collectArgs ((Index i, v) # es) a =
     collectArgs es (a\<lparr>positional := setIndex (positional a) i (convertVal v)\<rparr>)"
| "collectArgs ((Name k, v) # es) a =
     collectArgs es (a\<lparr>named := (named a)(k \<mapsto> convertVal v)\<rparr>)"

text \<open>
  What \<^verbatim>\<open>this.contract.interface.parseLog\<close> does with the topics and data of a raw log:
  it throws, returns \<^verbatim>\<open>null\<close>, or returns a name and arguments. An entry is either an
  \<^verbatim>\<open>EventLog\<close> that ethers decoded already (its fragment name, if any, and its
  arguments, if any), or a raw \<^verbatim>\<open>Log\<close> together with the outcome of parsing it.
\<close>

datatype parse_result =
    ParseThrows
  | ParseNull
  | Parsed string "(argkey \<times> ethval) list"

datatype payload =
    EventLog "string option" "(argkey \<times> ethval) list option"
  | RawLog parse_result

record log =
  ev_blockNumber :: int
  ev_blockHash :: string
  ev_transactionHash :: string
  ev_index :: nat
  ev_payload :: payload

text \<open>\<^verbatim>\<open>name || "UnknownEvent"\<close>: the empty string is falsy.\<close>

definition nameOrUnknown :: "string \<Rightarrow> string" where
  "nameOrUnknown n = (if n = [] then ''UnknownEvent'' else n)"

fun decodePayload :: "payload \<Rightarrow> string \<times> argsJson" where
  "decodePayload (EventLog fragment args) =
     (let eventName = (case fragment of None \<Rightarrow> ''UnknownEvent'' | Some n \<Rightarrow> nameOrUnknown n);
          a = (case args of None \<Rightarrow> emptyArgs | Some es \<Rightarrow> collectArgs es emptyArgs)
      in (eventName, a))"
| "decodePayload (RawLog ParseThrows) = (''UnknownEvent'', emptyArgs)"
| "decodePayload (RawLog ParseNull) = (''UnknownEvent'', emptyArgs)"
| "decodePayload (RawLog (Parsed n es)) = (nameOrUnknown n, collectArgs es emptyArgs)"

definition decodeLog :: "log \<Rightarrow> string \<times> argsJson" where
  "decodeLog ev = decodePayload (ev_payload ev)"

text \<open>
  \<^verbatim>\<open>getArg(argsJson, name, pos)\<close>: the named argument if it is there, else the positional
  one, else \<^verbatim>\<open>undefined\<close>. (\<^verbatim>\<open>__positional\<close> is attached only when the array is
  non-empty; an empty list stands for its absence.)
\<close>

definition getArg :: "argsJson \<Rightarrow> string \<Rightarrow> nat \<Rightarrow> jsval" where
  "getArg a name pos =
     (case named a name of
        Some (JString s) \<Rightarrow> JString s
      | _ \<Rightarrow>
          (if pos < length (positional a) \<and> positional a ! pos \<noteq> JUndefined
           then positional a ! pos
           else JUndefined))"

section \<open>The relational store\<close>

text \<open>
  The service indexes one contract on one chain (\<^verbatim>\<open>this.chainId\<close>,
  \<^verbatim>\<open>this.contractAddress.toLowerCase()\<close> are fixed at start-up), so every table of the
  model holds the rows of that pair only. Integer columns are unbounded.

  \<open>numstring\<close> is the text \<^verbatim>\<open>String(x)\<close> printed from a number \<open>x\<close>, represented by
  \<open>x\<close>: reading it back with \<^verbatim>\<open>Number\<close> gives \<open>x\<close> again, and for \<open>x\<close> an integer up
  to \<open>2^53\<close> the text is the decimal expansion of \<open>x\<close>.
\<close>

type_synonym numstring = jsnum

record snapshot =
  lastIndexedBlock :: int
  stage :: nat
  totalVoters :: nat
  totalVotes :: nat
  winnerComputed :: bool
  winningProposalId :: nat

record voter =
  weight :: jsnum
  hasVoted :: bool
  registeredAtBlock :: "int option"
  lastUpdatedBlock :: int

record vote =
  vote_proposalId :: nat
  vote_weight :: jsnum
  vote_txHash :: string
  vote_blockNumber :: int

text \<open>\<open>TemplateName n\<close> is the text \<^verbatim>\<open>`proposal-${proposalId}`\<close> for \<open>proposalId = n\<close>.\<close>

datatype proposal_name = TemplateName nat

record proposal =
  name :: proposal_name
  voteCount :: numstring

record onChainEvent =
  oe_blockNumber :: int
  oe_blockHash :: string
  oe_txHash :: string
  oe_logIndex :: nat
  oe_eventName :: string
  oe_argsJson :: argsJson

record db =
  syncState :: "int option"
  onChainEvents :: "onChainEvent list"
  ballotSnapshot :: "snapshot option"
  voterTable :: "jsstring \<rightharpoonup> voter"
  voteTable :: "jsstring \<rightharpoonup> vote"
  proposalTable :: "(nat \<times> proposal) list"

definition emptyDb :: db where
  "emptyDb = \<lparr>syncState = None, onChainEvents = [], ballotSnapshot = None,
              voterTable = Map.empty, voteTable = Map.empty, proposalTable = []\<rparr>"

datatype store_error = P2002 | P2025

text \<open>
  Modelled from the spec: the Prisma schema is not part of the sources. The spec gives the
  uniqueness constraint of the raw event table as (network, source address, transaction id,
  log position); network and address are fixed, which leaves the pair below.
\<close>

definition eventKey :: "onChainEvent \<Rightarrow> string \<times> nat" where
  "eventKey r = (oe_txHash r, oe_logIndex r)"

text \<open>
  \<^verbatim>\<open>prisma.onChainEvent.create\<close>: rejected with \<^verbatim>\<open>P2002\<close> when a row with the same key
  exists, appended otherwise.
\<close>

definition createEvent :: "db \<Rightarrow> onChainEvent \<Rightarrow> store_error + db" where
  "createEvent d r =
     (if eventKey r \<in> eventKey ` set (onChainEvents d) then Inl P2002
      else Inr (d\<lparr>onChainEvents := onChainEvents d @ [r]\<rparr>))"

section \<open>The read model projection\<close>

definition defaultSnapshot :: "int \<Rightarrow> snapshot" where
  "defaultSnapshot blockNumber =
     \<lparr>lastIndexedBlock = blockNumber, stage = 0, totalVoters = 0, totalVotes = 0,
      winnerComputed = False, winningProposalId = 0\<rparr>"

text \<open>\<^verbatim>\<open>ballotSnapshot.upsert\<close> at the head of the projection.\<close>

definition upsertSnapshot :: "int \<Rightarrow> db \<Rightarrow> db" where
  "upsertSnapshot blockNumber d =
     d\<lparr>ballotSnapshot :=
         Some (case ballotSnapshot d of
                 None \<Rightarrow> defaultSnapshot blockNumber
               | Some s \<Rightarrow> s\<lparr>lastIndexedBlock := blockNumber\<rparr>)\<rparr>"

text \<open>
  \<^verbatim>\<open>ballotSnapshot.update\<close>. The projection calls it after the upsert only, when the row
  exists.
\<close>

definition updateSnapshot :: "(snapshot \<Rightarrow> snapshot) \<Rightarrow> db \<Rightarrow> db" where
  "updateSnapshot f d = d\<lparr>ballotSnapshot := map_option f (ballotSnapshot d)\<rparr>"

definition projectStageChanged :: "argsJson \<Rightarrow> db \<Rightarrow> db" where
  "projectStageChanged a d =
     (let newStageRaw = getArg a ''newStage'' 0;
          newStage = Number newStageRaw
      in case newStage of
           Num n \<Rightarrow> updateSnapshot (\<lambda>s. s\<lparr>stage := n\<rparr>) d
         | _ \<Rightarrow> d)"

text \<open>
  In the two branches below \<^verbatim>\<open>if (voter)\<close> and \<^verbatim>\<open>voter !== undefined\<close> are the same
  test: \<^verbatim>\<open>undefined\<close> is falsy, and both shapes of string are non-empty, hence truthy.
\<close>

definition projectVoterRegistered :: "argsJson \<Rightarrow> int \<Rightarrow> db \<Rightarrow> db" where
  "projectVoterRegistered a blockNumber d =
     (let voter = getArg a ''voter'' 0;
          weightRaw = getArg a ''weight'' 1;
          w = (case weightRaw of JUndefined \<Rightarrow> Num 1 | _ \<Rightarrow> Number weightRaw)
      in case voter of
           JUndefined \<Rightarrow> d
         | JString s \<Rightarrow>
             (let k = toLowerCase s;
                  row = (case voterTable d k of
                           Some r \<Rightarrow> r\<lparr>weight := w, registeredAtBlock := Some blockNumber,
                                       lastUpdatedBlock := blockNumber\<rparr>
                         | None \<Rightarrow> \<lparr>weight = w, hasVoted = False,
                                     registeredAtBlock = Some blockNumber,
                                     lastUpdatedBlock = blockNumber\<rparr>);
                  d1 = d\<lparr>voterTable := (voterTable d)(k \<mapsto> row)\<rparr>
              in updateSnapshot (\<lambda>s. s\<lparr>totalVoters := totalVoters s + 1\<rparr>) d1))"

definition projectVoteCast :: "argsJson \<Rightarrow> int \<Rightarrow> string \<Rightarrow> db \<Rightarrow> db" where
  "projectVoteCast a blockNumber txHash d =
     (let voter = getArg a ''voter'' 0;
          proposalIdRaw = getArg a ''proposalId'' 1;
          weightRaw = getArg a ''weight'' 2;
          proposalId = Number proposalIdRaw;
          w = Number weightRaw
      in case (voter, proposalId) of
           (JString s, Num pid) \<Rightarrow>
             (let k = toLowerCase s;
                  d1 = d\<lparr>voteTable := (voteTable d)(k \<mapsto>
                          \<lparr>vote_proposalId = pid, vote_weight = w, vote_txHash = txHash,
                           vote_blockNumber = blockNumber\<rparr>)\<rparr>;
                  vrow = (case voterTable d1 k of
                            Some r \<Rightarrow> r\<lparr>hasVoted := True, lastUpdatedBlock := blockNumber\<rparr>
                          | None \<Rightarrow> \<lparr>weight = (if isFinite w then w else Num 1),
                                      hasVoted = True, registeredAtBlock = None,
                                      lastUpdatedBlock = blockNumber\<rparr>);
                  d2 = d1\<lparr>voterTable := (voterTable d1)(k \<mapsto> vrow)\<rparr>;
                  existing = map_of (proposalTable d2) pid;
                  current = (case existing of Some p \<Rightarrow> voteCount p | None \<Rightarrow> Num 0);
                  next = js_add current (if isFinite w then w else Num 0);
                  prow = (case existing of
                            Some p \<Rightarrow> p\<lparr>voteCount := next\<rparr>
                          | None \<Rightarrow> \<lparr>name = TemplateName pid, voteCount = next\<rparr>);
                  d3 = d2\<lparr>proposalTable := AList.update pid prow (proposalTable d2)\<rparr>
              in updateSnapshot (\<lambda>s. s\<lparr>totalVotes := totalVotes s + 1\<rparr>) d3)
         | _ \<Rightarrow> d)"

definition projectFinalized :: "argsJson \<Rightarrow> db \<Rightarrow> db" where
  "projectFinalized a d =
     (let winningProposalIdRaw = getArg a ''winningProposalId'' 0;
          wid = Number winningProposalIdRaw
      in case wid of
           Num n \<Rightarrow> updateSnapshot (\<lambda>s. s\<lparr>winnerComputed := True, winningProposalId := n\<rparr>) d
         | _ \<Rightarrow> d)"

definition applyReadModelProjection ::
  "db \<Rightarrow> string \<Rightarrow> argsJson \<Rightarrow> int \<Rightarrow> string \<Rightarrow> db" where
  "applyReadModelProjection d eventName a blockNumber txHash =
     (let d0 = upsertSnapshot blockNumber d
      in if eventName = ''StageChanged'' then projectStageChanged a d0
         else if eventName = ''VoterRegistered'' then projectVoterRegistered a blockNumber d0
         else if eventName = ''VoteCast'' then projectVoteCast a blockNumber txHash d0
         else if eventName = ''Finalized'' then projectFinalized a d0
         else d0)"

section \<open>Rate-limit handling\<close>

record config =
  MAX_LOG_BLOCK_RANGE :: int
  CONFIRMATIONS :: int
  RPC_MAX_RETRIES :: int
  RPC_BACKOFF_BASE_MS :: int
  RPC_BACKOFF_CAP_MS :: int
  DEPLOYMENT_BLOCK :: int

text \<open>
  An error thrown by the provider, as far as \<^verbatim>\<open>isRateLimitError\<close> looks at it:
  \<^verbatim>\<open>e.error.code\<close>, \<^verbatim>\<open>e.code\<close>, \<^verbatim>\<open>e.error.message\<close>, \<^verbatim>\<open>e.message\<close>. A missing
  message is the empty string (the code treats both alike).
\<close>

datatype errcode = NoCode | NumCode int | StrCode string

record rpc_error =
  err_inner_code :: errcode
  err_code :: errcode
  err_inner_message :: string
  err_message :: string

definition codeTruthy :: "errcode \<Rightarrow> bool" where
  "codeTruthy c =
     (case c of NoCode \<Rightarrow> False | NumCode n \<Rightarrow> n \<noteq> 0 | StrCode s \<Rightarrow> s \<noteq> [])"

definition isRateLimitError :: "rpc_error \<Rightarrow> bool" where
  "isRateLimitError e =
     (let code = (if codeTruthy (err_inner_code e) then err_inner_code e else err_code e);
          msg = (if err_inner_message e \<noteq> [] then err_inner_message e else err_message e)
      in code = NumCode 429 \<or> sublist ''compute units per second'' msg)"

text \<open>
  The promise returned by one call of \<^verbatim>\<open>fn()\<close>. An operation wrapped in \<^verbatim>\<open>withRetry\<close>
  is given by the outcome of its first, second, ... call; the loop makes call number
  \<open>attempt\<close> when its counter is \<open>attempt\<close>. The result carries the waits slept through.
\<close>

datatype 'a outcome = Resolves 'a | Rejects rpc_error

definition waitMs :: "config \<Rightarrow> nat \<Rightarrow> int" where
  "waitMs cfg attempt = min (RPC_BACKOFF_BASE_MS cfg * 2 ^ attempt) (RPC_BACKOFF_CAP_MS cfg)"

function retryLoop ::
  "config \<Rightarrow> (nat \<Rightarrow> 'a outcome) \<Rightarrow> nat \<Rightarrow> (rpc_error + 'a) \<times> int list" where
  "retryLoop cfg fn attempt =
     (case fn attempt of
        Resolves v \<Rightarrow> (Inr v, [])
      | Rejects e \<Rightarrow>
          (if \<not> isRateLimitError e \<or> RPC_MAX_RETRIES cfg \<le> int attempt then (Inl e, [])
           else
             apsnd ((#) (waitMs cfg attempt)) (retryLoop cfg fn (attempt + 1))))"
  by pat_completeness auto
termination
  by (relation "measure (\<lambda>(cfg, fn, attempt). nat (RPC_MAX_RETRIES cfg - int attempt))") auto

declare retryLoop.simps [simp del]

definition withRetry :: "config \<Rightarrow> (nat \<Rightarrow> 'a outcome) \<Rightarrow> (rpc_error + 'a) \<times> int list" where
  "withRetry cfg fn = retryLoop cfg fn 0"

section \<open>The sync cursor and one catch-up pass\<close>

text \<open>
  The chain as the pass sees it: the outcomes of \<^verbatim>\<open>provider.getBlockNumber()\<close> inside
  \<^verbatim>\<open>getOrCreateSyncState\<close> and inside \<^verbatim>\<open>catchUpOnce\<close>, and of
  \<^verbatim>\<open>contract.queryFilter("*", fromBlock, toBlock)\<close> for each range.
\<close>

record chain =
  getBlockNumberInit :: "nat \<Rightarrow> int outcome"
  getBlockNumber :: "nat \<Rightarrow> int outcome"
  queryFilter :: "int \<Rightarrow> int \<Rightarrow> nat \<Rightarrow> log list outcome"

datatype error = Rpc rpc_error | Store store_error

definition getOrCreateSyncState ::
  "config \<Rightarrow> chain \<Rightarrow> db \<Rightarrow> rpc_error + (db \<times> int)" where
  "getOrCreateSyncState cfg ch d =
     (case fst (withRetry cfg (getBlockNumberInit ch)) of
        Inl e \<Rightarrow> Inl e
      | Inr latest \<Rightarrow>
          (let deploymentBlock = DEPLOYMENT_BLOCK cfg;
               defaultStart = (if deploymentBlock > 0 then max (deploymentBlock - 1) 0
                               else max (latest - 100) 0)
           in case syncState d of
                None \<Rightarrow> Inr (d\<lparr>syncState := Some defaultStart\<rparr>, defaultStart)
              | Some c \<Rightarrow> Inr (d, c)))"

text \<open>
  The body of \<^verbatim>\<open>for (const ev of logs)\<close>: store the raw event; a duplicate
  (\<^verbatim>\<open>P2002\<close>) is ignored, any other store error is rethrown; project only if the row
  was created.
\<close>

definition rawEventOf :: "log \<Rightarrow> string \<Rightarrow> argsJson \<Rightarrow> onChainEvent" where
  "rawEventOf ev eventName a =
     \<lparr>oe_blockNumber = ev_blockNumber ev, oe_blockHash = ev_blockHash ev,
      oe_txHash = ev_transactionHash ev, oe_logIndex = ev_index ev,
      oe_eventName = eventName, oe_argsJson = a\<rparr>"

definition processEntry :: "db \<Rightarrow> log \<Rightarrow> store_error + db" where
  "processEntry d ev =
     (case decodeLog ev of
        (eventName, a) \<Rightarrow>
          (case createEvent d (rawEventOf ev eventName a) of
             Inr d1 \<Rightarrow>
               Inr (applyReadModelProjection d1 eventName a (ev_blockNumber ev)
                      (ev_transactionHash ev))
           | Inl e \<Rightarrow> (if e \<noteq> P2002 then Inl e else Inr d)))"

text \<open>The loop over the entries: the error thrown, if any, and the store as it is left.\<close>

fun processLogs :: "db \<Rightarrow> log list \<Rightarrow> store_error option \<times> db" where
  "processLogs d [] = (None, d)"
| "processLogs d (ev # evs) =
     (case processEntry d ev of
        Inl e \<Rightarrow> (Some e, d)
      | Inr d1 \<Rightarrow> processLogs d1 evs)"

text \<open>
  \<^verbatim>\<open>contractSyncState.update({ data: { lastProcessedBlock: toBlock } })\<close>: Prisma rejects
  an update of a row that does not exist (\<^verbatim>\<open>P2025\<close>); otherwise the value is written.
\<close>

definition updateSyncState :: "db \<Rightarrow> int \<Rightarrow> store_error + db" where
  "updateSyncState d toBlock =
     (case syncState d of
        None \<Rightarrow> Inl P2025
      | Some c \<Rightarrow> Inr (d\<lparr>syncState := Some toBlock\<rparr>))"

text \<open>One iteration of \<^verbatim>\<open>while (fromBlock <= safeLatest)\<close>, given its \<open>toBlock\<close>.\<close>

definition processRange ::
  "config \<Rightarrow> chain \<Rightarrow> db \<Rightarrow> int \<Rightarrow> int \<Rightarrow> error option \<times> db" where
  "processRange cfg ch d fromBlock toBlock =
     (case fst (withRetry cfg (queryFilter ch fromBlock toBlock)) of
        Inl e \<Rightarrow> (Some (Rpc e), d)
      | Inr logs \<Rightarrow>
          (case processLogs d logs of
             (Some e, d1) \<Rightarrow> (Some (Store e), d1)
           | (None, d1) \<Rightarrow>
               (case updateSyncState d1 toBlock of
                  Inl e \<Rightarrow> (Some (Store e), d1)
                | Inr d2 \<Rightarrow> (None, d2))))"

text \<open>
  The while loop. Its result is the error that aborted the pass, if any, the store as it is
  left, and the ranges \<open>(fromBlock, toBlock)\<close> completed, in order. The loop need not
  terminate (a width below 1 never exhausts the backlog), hence the option.
\<close>

partial_function (option) catchUpLoop ::
  "config \<Rightarrow> chain \<Rightarrow> int \<Rightarrow> db \<Rightarrow> int \<Rightarrow> (int \<times> int) list
     \<Rightarrow> (error option \<times> db \<times> (int \<times> int) list) option" where
  "catchUpLoop cfg ch safeLatest d fromBlock done =
     (if fromBlock \<le> safeLatest then
        (let toBlock = min (fromBlock + MAX_LOG_BLOCK_RANGE cfg - 1) safeLatest
         in case processRange cfg ch d fromBlock toBlock of
              (Some e, d1) \<Rightarrow> Some (Some e, d1, done)
            | (None, d1) \<Rightarrow>
                catchUpLoop cfg ch safeLatest d1 (toBlock + 1) (done @ [(fromBlock, toBlock)]))
      else Some (None, d, done))"

declare catchUpLoop.simps [code]

definition catchUpOnce ::
  "config \<Rightarrow> chain \<Rightarrow> db \<Rightarrow> (error option \<times> db \<times> (int \<times> int) list) option" where
  "catchUpOnce cfg ch d =
     (case getOrCreateSyncState cfg ch d of
        Inl e \<Rightarrow> Some (Some (Rpc e), d, [])
      | Inr (d0, lastProcessedBlock) \<Rightarrow>
          (case fst (withRetry cfg (getBlockNumber ch)) of
             Inl e \<Rightarrow> Some (Some (Rpc e), d0, [])
           | Inr latest \<Rightarrow>
               (let safeLatest = max (latest - CONFIRMATIONS cfg) 0;
                    fromBlockInitial = lastProcessedBlock + 1
                in if fromBlockInitial > safeLatest then Some (None, d0, [])
                   else catchUpLoop cfg ch safeLatest d0 fromBlockInitial [])))"

text \<open>
  The stores a reader can find while one range is processed: every write is committed on
  its own (there is no transaction), so the store after each entry is visible, and then
  the store after the cursor update.
\<close>

fun processLogsStates :: "db \<Rightarrow> log list \<Rightarrow> db list" where
  "processLogsStates d [] = []"
| "processLogsStates d (ev # evs) =
     (case processEntry d ev of
        Inl e \<Rightarrow> []
      | Inr d1 \<Rightarrow> d1 # processLogsStates d1 evs)"

definition rangeStates :: "config \<Rightarrow> chain \<Rightarrow> db \<Rightarrow> int \<Rightarrow> int \<Rightarrow> db list" where
  "rangeStates cfg ch d fromBlock toBlock =
     (case fst (withRetry cfg (queryFilter ch fromBlock toBlock)) of
        Inl e \<Rightarrow> []
      | Inr logs \<Rightarrow>
          processLogsStates d logs @
          (case processLogs d logs of
             (Some e, d1) \<Rightarrow> []
           | (None, d1) \<Rightarrow>
               (case updateSyncState d1 toBlock of Inl e \<Rightarrow> [] | Inr d2 \<Rightarrow> [d2])))"

section \<open>The timer: passes that overlap\<close>

text \<open>
  \<^verbatim>\<open>onModuleInit\<close> runs a first catch-up and then hands \<^verbatim>\<open>catchUpOnce\<close> to
  \<^verbatim>\<open>setInterval\<close>. Nothing looks whether the pass of the previous tick has returned, so
  several activations of \<^verbatim>\<open>catchUpOnce\<close> can be under way at once (a pass outlasts the
  interval as soon as a fetch is held up by the backoff); they take turns at their
  \<^verbatim>\<open>await\<close>s and share the store.

  An activation that has entered its while loop is described by its local variables: the
  chain as it answers this activation, \<open>safeLatest\<close>, \<open>fromBlock\<close>, and, inside an
  iteration, \<open>toBlock\<close> with the fetched entries not yet processed.
\<close>

record pass =
  p_chain :: chain
  p_safeLatest :: int
  p_fromBlock :: int
  p_inRange :: "(int \<times> log list) option"

datatype progress = Running pass | Returned | Threw error

text \<open>
  The head of \<^verbatim>\<open>catchUpOnce\<close>, up to the while loop: the cursor is read (and seeded if
  missing), the tip is asked for, and the pass returns at once if there is nothing to do.
\<close>

definition startPass :: "config \<Rightarrow> chain \<Rightarrow> db \<Rightarrow> db \<times> progress" where
  "startPass cfg ch d =
     (case getOrCreateSyncState cfg ch d of
        Inl e \<Rightarrow> (d, Threw (Rpc e))
      | Inr (d0, lastProcessedBlock) \<Rightarrow>
          (case fst (withRetry cfg (getBlockNumber ch)) of
             Inl e \<Rightarrow> (d0, Threw (Rpc e))
           | Inr latest \<Rightarrow>
               (let safeLatest = max (latest - CONFIRMATIONS cfg) 0;
                    fromBlockInitial = lastProcessedBlock + 1
                in if fromBlockInitial > safeLatest then (d0, Returned)
                   else (d0, Running \<lparr>p_chain = ch, p_safeLatest = safeLatest,
                                      p_fromBlock = fromBlockInitial, p_inRange = None\<rparr>))))"

text \<open>
  The next step of an activation inside the loop: the fetch of the next range (or the
  return, when the backlog is exhausted), the writes for one entry of the range, taken
  together, or the cursor update that ends the iteration. The cursor is read at the head
  of the pass only, and written by the cursor update only.
\<close>

definition stepPass :: "config \<Rightarrow> pass \<Rightarrow> db \<Rightarrow> db \<times> progress" where
  "stepPass cfg p d =
     (case p_inRange p of
        None \<Rightarrow>
          (if p_fromBlock p \<le> p_safeLatest p then
             (let toBlock = min (p_fromBlock p + MAX_LOG_BLOCK_RANGE cfg - 1) (p_safeLatest p)
              in case fst (withRetry cfg (queryFilter (p_chain p) (p_fromBlock p) toBlock)) of
                   Inl e \<Rightarrow> (d, Threw (Rpc e))
                 | Inr logs \<Rightarrow> (d, Running (p\<lparr>p_inRange := Some (toBlock, logs)\<rparr>)))
           else (d, Returned))
      | Some (toBlock, logs) \<Rightarrow>
          (case logs of
             ev # evs \<Rightarrow>
               (case processEntry d ev of
                  Inl e \<Rightarrow> (d, Threw (Store e))
                | Inr d1 \<Rightarrow> (d1, Running (p\<lparr>p_inRange := Some (toBlock, evs)\<rparr>)))
           | [] \<Rightarrow>
               (case updateSyncState d toBlock of
                  Inl e \<Rightarrow> (d, Threw (Store e))
                | Inr d2 \<Rightarrow>
                    (d2, Running (p\<lparr>p_fromBlock := toBlock + 1, p_inRange := None\<rparr>)))))"

text \<open>
  The service at one moment: the store, the activations under way (oldest first), and the
  errors thrown so far, which the \<^verbatim>\<open>catch\<close> around each activation logs. A call of
  \<^verbatim>\<open>catchUpOnce\<close> (the first catch-up or a timer tick) starts an activation against
  the chain as it answers then; otherwise the activation at some position among those
  under way takes its next step (nothing happens if there is none at that position). A
  schedule lists these actions in the order in which they happen.
\<close>

record system =
  store :: db
  running :: "pass list"
  thrown :: "error list"

datatype action = Tick chain | Resume nat

fun perform :: "config \<Rightarrow> action \<Rightarrow> system \<Rightarrow> system" where
  "perform cfg (Tick ch) s =
     (case startPass cfg ch (store s) of
        (d, Running p) \<Rightarrow> s\<lparr>store := d, running := running s @ [p]\<rparr>
      | (d, Returned) \<Rightarrow> s\<lparr>store := d\<rparr>
      | (d, Threw e) \<Rightarrow> s\<lparr>store := d, thrown := thrown s @ [e]\<rparr>)"
| "perform cfg (Resume i) s =
     (if i < length (running s) then
        (case stepPass cfg (running s ! i) (store s) of
           (d, Running p) \<Rightarrow> s\<lparr>store := d, running := (running s)[i := p]\<rparr>
         | (d, Returned) \<Rightarrow>
             s\<lparr>store := d, running := take i (running s) @ drop (Suc i) (running s)\<rparr>
         | (d, Threw e) \<Rightarrow>
             s\<lparr>store := d, running := take i (running s) @ drop (Suc i) (running s),
               thrown := thrown s @ [e]\<rparr>)
      else s)"

fun runSchedule :: "config \<Rightarrow> action list \<Rightarrow> system \<Rightarrow> system" where
  "runSchedule cfg [] s = s"
| "runSchedule cfg (a # as) s = runSchedule cfg as (perform cfg a s)"

section \<open>The stats query\<close>

text \<open>
  \<^verbatim>\<open>backend/src/stats/stats.service.ts\<close> divides two counts, prints the quotient with
  \<^verbatim>\<open>toFixed(4)\<close> and reads the text back with \<^verbatim>\<open>Number\<close>. The numbers involved are
  fractions, so a finite binary64 value is represented here by the rational it denotes.
  \<open>roundRatio a b\<close> is the binary64 value nearest to \<open>a / b\<close> (ties to even) for positive
  \<open>a\<close> and \<open>b\<close>: a 53-bit significand \<open>m\<close> and an exponent \<open>e\<close>. The exponent is not
  bounded; binary64 leaves that range only from \<open>2^1024\<close> on and below \<open>2^-1022\<close>.
\<close>

datatype jsreal = Finite rat | Infinite | NotANumber

definition scaled :: "nat \<Rightarrow> nat \<Rightarrow> int \<Rightarrow> nat \<times> nat" where
  "scaled a b e = (if 0 \<le> e then (a, b * 2 ^ nat e) else (a * 2 ^ nat (- e), b))"

definition roundRatio :: "nat \<Rightarrow> nat \<Rightarrow> rat" where
  "roundRatio a b =
     (if a = 0 then 0
      else
        let e0 = int (bitlen a) - int (bitlen b) - 53;
            m0 = (case scaled a b e0 of (n, d) \<Rightarrow> n div d);
            e = (if 2 ^ 53 \<le> m0 then e0 + 1 else e0);
            m = (case scaled a b e of (n, d) \<Rightarrow> roundHalfEven n d)
        in if 0 \<le> e then of_nat (m * 2 ^ nat e) else of_nat m / of_nat (2 ^ nat (- e)))"

text \<open>\<^verbatim>\<open>a / b\<close> on two counts. Division by zero does not throw in JavaScript.\<close>

definition js_div :: "nat \<Rightarrow> nat \<Rightarrow> jsreal" where
  "js_div a b =
     (if b = 0 then (if a = 0 then NotANumber else Infinite)
      else Finite (roundRatio a b))"

text \<open>
  \<^verbatim>\<open>x.toFixed(4)\<close> for \<open>x \<ge> 0\<close>: the integer \<open>n\<close> for which \<open>n / 10^4 - x\<close> is as close to
  zero as possible, the larger one if there are two; the text is \<open>n\<close> with a point before
  its last four digits. \<open>Fixed4 n\<close> stands for that text.
\<close>

datatype fixedstr = Fixed4 nat | InfinityStr | NaNStr

definition toFixed4 :: "jsreal \<Rightarrow> fixedstr" where
  "toFixed4 x =
     (case x of
        Finite q \<Rightarrow> Fixed4 (nat \<lfloor>q * 10 ^ 4 + 1 / 2\<rfloor>)
      | Infinite \<Rightarrow> InfinityStr
      | NotANumber \<Rightarrow> NaNStr)"

definition NumberOfFixed :: "fixedstr \<Rightarrow> jsreal" where
  "NumberOfFixed t =
     (case t of
        Fixed4 n \<Rightarrow> Finite (roundRatio n (10 ^ 4))
      | InfinityStr \<Rightarrow> Infinite
      | NaNStr \<Rightarrow> NotANumber)"

record stats =
  st_stage :: nat
  st_totalVoters :: nat
  st_totalVotes :: nat
  st_participationRate :: jsreal
  st_winnerComputed :: bool
  st_winnerProposalId :: nat
  st_proposals :: "(nat \<times> proposal_name \<times> numstring) list"
  st_lastIndexedBlock :: int

definition getStats :: "db \<Rightarrow> stats" where
  "getStats d =
     (let snapshot = ballotSnapshot d;
          proposals = sort_key fst (proposalTable d);
          tVoters = (case snapshot of None \<Rightarrow> 0 | Some s \<Rightarrow> totalVoters s);
          tVotes = (case snapshot of None \<Rightarrow> 0 | Some s \<Rightarrow> totalVotes s);
          participationRate =
            (if tVoters > 0 then NumberOfFixed (toFixed4 (js_div tVotes tVoters))
             else Finite 0)
      in \<lparr>st_stage = (case snapshot of None \<Rightarrow> 0 | Some s \<Rightarrow> stage s),
          st_totalVoters = tVoters,
          st_totalVotes = tVotes,
          st_participationRate = participationRate,
          st_winnerComputed = (case snapshot of None \<Rightarrow> False | Some s \<Rightarrow> winnerComputed s),
          st_winnerProposalId = (case snapshot of None \<Rightarrow> 0 | Some s \<Rightarrow> winningProposalId s),
          st_proposals = map (\<lambda>(i, p). (i, name p, voteCount p)) proposals,
          st_lastIndexedBlock = (case snapshot of None \<Rightarrow> 0 | Some s \<Rightarrow> lastIndexedBlock s)\<rparr>)"

section \<open>Concrete inputs used in the examples\<close>

text \<open>The defaults of the service, with the deployment block of the spec's scenario.\<close>

definition exampleConfig :: config where
  "exampleConfig =
     \<lparr>MAX_LOG_BLOCK_RANGE = 10, CONFIRMATIONS = 2, RPC_MAX_RETRIES = 8,
      RPC_BACKOFF_BASE_MS = 1500, RPC_BACKOFF_CAP_MS = 30000, DEPLOYMENT_BLOCK = 100\<rparr>"

definition rateLimited :: rpc_error where
  "rateLimited =
     \<lparr>err_inner_code = NoCode, err_code = NumCode 429, err_inner_message = [],
      err_message = ''Too Many Requests''\<rparr>"

definition badRange :: rpc_error where
  "badRange =
     \<lparr>err_inner_code = NumCode (- 32602), err_code = StrCode ''UNKNOWN_ERROR'',
      err_inner_message = ''invalid block range'', err_message = ''could not coalesce error''\<rparr>"

definition failsTwice :: "nat \<Rightarrow> int outcome" where
  "failsTwice i = (if i < 2 then Rejects rateLimited else Resolves 130)"

definition alwaysLimited :: "nat \<Rightarrow> int outcome" where
  "alwaysLimited i = Rejects rateLimited"

definition failsHard :: "nat \<Rightarrow> int outcome" where
  "failsHard i = Rejects badRange"

text \<open>
  The spec's scenario: \<^verbatim>\<open>StageChanged(newStage = 1)\<close> in block 105 and
  \<^verbatim>\<open>VoterRegistered(addr, weight = 1)\<close> in block 107, as ethers returns them (positional
  arguments); then a log that the ABI cannot parse, and a vote.
\<close>

definition stageChangedLog :: log where
  "stageChangedLog =
     \<lparr>ev_blockNumber = 105, ev_blockHash = ''0xb105'', ev_transactionHash = ''0xaa01'',
      ev_index = 0,
      ev_payload = EventLog (Some ''StageChanged'')
                     (Some [(Index 0, EBigint 1), (Index 1, EBigint 1700000000)])\<rparr>"

definition voterRegisteredLog :: log where
  "voterRegisteredLog =
     \<lparr>ev_blockNumber = 107, ev_blockHash = ''0xb107'', ev_transactionHash = ''0xaa02'',
      ev_index = 0,
      ev_payload = EventLog (Some ''VoterRegistered'')
                     (Some [(Index 0, EAddress ''5B38Da6a701c568545dCfcB03FcB875f56beddC4''),
                            (Index 1, EBigint 1)])\<rparr>"

definition unparsedLog :: log where
  "unparsedLog =
     \<lparr>ev_blockNumber = 108, ev_blockHash = ''0xb108'', ev_transactionHash = ''0xaa03'',
      ev_index = 3, ev_payload = RawLog ParseThrows\<rparr>"

definition voteCastLog :: log where
  "voteCastLog =
     \<lparr>ev_blockNumber = 123, ev_blockHash = ''0xb123'', ev_transactionHash = ''0xaa04'',
      ev_index = 1,
      ev_payload = RawLog (Parsed ''VoteCast''
                     [(Index 0, EAddress ''Ab8483F64d9C6d1EcF9b849Ae677dD3315835cb2''),
                      (Index 1, EBigint 2), (Index 2, EBigint 1),
                      (Name ''voter'', EAddress ''Ab8483F64d9C6d1EcF9b849Ae677dD3315835cb2''),
                      (Name ''proposalId'', EBigint 2), (Name ''weight'', EBigint 1)])\<rparr>"

definition finalizedLog :: log where
  "finalizedLog =
     \<lparr>ev_blockNumber = 127, ev_blockHash = ''0xb127'', ev_transactionHash = ''0xaa05'',
      ev_index = 0,
      ev_payload = EventLog (Some ''Finalized'')
                     (Some [(Index 0, EBigint 2), (Index 1, EBigint 1),
                            (Index 2, EBigint 1700009999)])\<rparr>"

definition exampleLogs :: "log list" where
  "exampleLogs = [stageChangedLog, voterRegisteredLog, unparsedLog, voteCastLog, finalizedLog]"

text \<open>A chain with tip 130 whose log query answers at once with the logs of the range.\<close>

definition logsBetween :: "int \<Rightarrow> int \<Rightarrow> nat \<Rightarrow> log list outcome" where
  "logsBetween fromBlock toBlock i =
     Resolves (filter (\<lambda>ev. fromBlock \<le> ev_blockNumber ev \<and> ev_blockNumber ev \<le> toBlock)
                 exampleLogs)"

definition exampleChain :: chain where
  "exampleChain =
     \<lparr>getBlockNumberInit = failsTwice, getBlockNumber = failsTwice, queryFilter = logsBetween\<rparr>"

text \<open>A chain with tip 130 on which the contract has emitted nothing.\<close>

definition quietChain :: chain where
  "quietChain =
     \<lparr>getBlockNumberInit = (\<lambda>i. Resolves 130), getBlockNumber = (\<lambda>i. Resolves 130),
      queryFilter = (\<lambda>fromBlock toBlock i. Resolves [])\<rparr>"

text \<open>
  The same chain when the provider is short of capacity: the log query for the range that
  starts at block 100 is turned down as rate-limited four times before it answers.
\<close>

definition heldUp :: "int \<Rightarrow> int \<Rightarrow> nat \<Rightarrow> log list outcome" where
  "heldUp fromBlock toBlock i =
     (if fromBlock = 100 \<and> i < 4 then Rejects rateLimited else Resolves [])"

definition slowChain :: chain where
  "slowChain =
     \<lparr>getBlockNumberInit = (\<lambda>i. Resolves 130), getBlockNumber = (\<lambda>i. Resolves 130),
      queryFilter = heldUp\<rparr>"

section \<open>Vocabulary of the statements\<close>

text \<open>The key under which an entry is stored, and the keys present in the raw event table.\<close>

definition logKey :: "log \<Rightarrow> string \<times> nat" where
  "logKey ev = (ev_transactionHash ev, ev_index ev)"

definition eventKeys :: "db \<Rightarrow> (string \<times> nat) set" where
  "eventKeys d = eventKey ` set (onChainEvents d)"

text \<open>
  The snapshot row right after the upsert at the head of the projection: created with
  zeros if it was missing, and in either case with \<open>lastIndexedBlock\<close> set to the block.
\<close>

definition snapshotRow :: "int \<Rightarrow> db \<Rightarrow> snapshot" where
  "snapshotRow blockNumber d =
     (case ballotSnapshot d of
        None \<Rightarrow> defaultSnapshot blockNumber
      | Some s \<Rightarrow> s\<lparr>lastIndexedBlock := blockNumber\<rparr>)"

text \<open>
  The store with the cursor seeded at 99 (deployment block 100), and the store after the
  range 100 to 109 of the example chain has been processed.
\<close>

definition seededDb :: db where
  "seededDb = emptyDb\<lparr>syncState := Some 99\<rparr>"

definition afterFirstRange :: db where
  "afterFirstRange =
     \<lparr>syncState = Some 109,
      onChainEvents =
        [rawEventOf stageChangedLog ''StageChanged'' (snd (decodeLog stageChangedLog)),
         rawEventOf voterRegisteredLog ''VoterRegistered'' (snd (decodeLog voterRegisteredLog)),
         rawEventOf unparsedLog ''UnknownEvent'' emptyArgs],
      ballotSnapshot =
        Some \<lparr>lastIndexedBlock = 108, stage = 1, totalVoters = 1, totalVotes = 0,
              winnerComputed = False, winningProposalId = 0\<rparr>,
      voterTable = [HexStr ''5b38da6a701c568545dcfcb03fcb875f56beddc4'' \<mapsto>
                      \<lparr>weight = Num 1, hasVoted = False, registeredAtBlock = Some 107,
                       lastUpdatedBlock = 107\<rparr>],
      voteTable = Map.empty,
      proposalTable = []\<rparr>"

text \<open>
  The ranges of one pass in the spec's words: from \<open>fromBlock\<close>, successive ranges
  \<open>[fromBlock, min (fromBlock + w - 1) safeTip]\<close> until \<open>safeTip\<close> is passed.
\<close>

function specRanges :: "int \<Rightarrow> int \<Rightarrow> int \<Rightarrow> (int \<times> int) list" where
  "specRanges w fromBlock safeTip =
     (if fromBlock \<le> safeTip \<and> 1 \<le> w
      then (fromBlock, min (fromBlock + w - 1) safeTip)
             # specRanges w (min (fromBlock + w - 1) safeTip + 1) safeTip
      else [])"
  by pat_completeness auto
termination
  by (relation "measure (\<lambda>(w, fromBlock, safeTip). nat (safeTip - fromBlock + 1))") auto

declare specRanges.simps [simp del]

text \<open>
  The service with no pass under way, the cursor values stored after each action of a
  schedule, and the schedules in which no tick falls while a pass is under way.
\<close>

definition idle :: "db \<Rightarrow> system" where
  "idle d = \<lparr>store = d, running = [], thrown = []\<rparr>"

fun cursors :: "config \<Rightarrow> action list \<Rightarrow> system \<Rightarrow> int option list" where
  "cursors cfg [] s = []"
| "cursors cfg (a # as) s =
     syncState (store (perform cfg a s)) # cursors cfg as (perform cfg a s)"

fun overlapFree :: "config \<Rightarrow> action list \<Rightarrow> system \<Rightarrow> bool" where
  "overlapFree cfg [] s = True"
| "overlapFree cfg (Tick ch # as) s =
     (running s = [] \<and> overlapFree cfg as (perform cfg (Tick ch) s))"
| "overlapFree cfg (Resume i # as) s = overlapFree cfg as (perform cfg (Resume i) s)"

text \<open>
  A pass under way is ahead of block \<open>c\<close> when the range it works on, and every later one,
  lies above \<open>c\<close>.
\<close>

definition ahead :: "int \<Rightarrow> pass \<Rightarrow> bool" where
  "ahead c p =
     (c < p_fromBlock p \<and>
      (case p_inRange p of None \<Rightarrow> True | Some (toBlock, logs) \<Rightarrow> p_fromBlock p \<le> toBlock))"

text \<open>
  Two schedules; \<open>Resume 0\<close> resumes the oldest pass under way. In the first, on the slow
  chain, a second tick falls while the pass of the first tick is still waiting for its
  first fetch; the first pass then runs to its end (three ranges of two steps each, and
  the return), and the second pass takes its first two steps. In the second, on the quiet
  chain, the pass of the first tick runs to its end before the second tick.
\<close>

definition lateWrite :: "action list" where
  "lateWrite =
     [Tick slowChain, Tick slowChain,
      Resume 0, Resume 0, Resume 0, Resume 0, Resume 0, Resume 0, Resume 0,
      Resume 0, Resume 0]"

definition oneAtATime :: "action list" where
  "oneAtATime =
     [Tick quietChain,
      Resume 0, Resume 0, Resume 0, Resume 0, Resume 0, Resume 0, Resume 0,
      Tick quietChain]"

text \<open>A store whose cursor is at block 10.\<close>

definition cursorAt10 :: db where
  "cursorAt10 = emptyDb\<lparr>syncState := Some 10\<rparr>"

text \<open>What a pass returns, with the store reduced to its cursor.\<close>

definition passSummary ::
  "(error option \<times> db \<times> (int \<times> int) list) option
     \<Rightarrow> (error option \<times> int option \<times> (int \<times> int) list) option" where
  "passSummary res = map_option (\<lambda>(r, d, ranges). (r, syncState d, ranges)) res"

text \<open>
  A vote whose weight is \<open>2^53 + 1\<close>, stores in which proposal 2 has the count \<open>2^53\<close>
  and the count 41, and a store with three voters of whom two have voted.
\<close>

definition bigVoteLog :: log where
  "bigVoteLog =
     \<lparr>ev_blockNumber = 124, ev_blockHash = ''0xb124'', ev_transactionHash = ''0xaa06'',
      ev_index = 0,
      ev_payload = EventLog (Some ''VoteCast'')
                     (Some [(Index 0, EAddress ''4B20993Bc481177ec7E8f571ceCaE8A9e22C02db''),
                            (Index 1, EBigint 0), (Index 2, EBigint 9007199254740993)])\<rparr>"

definition countAt2p53 :: db where
  "countAt2p53 =
     emptyDb\<lparr>proposalTable := [(2, \<lparr>name = TemplateName 2, voteCount = Num 9007199254740992\<rparr>)]\<rparr>"

definition countAt41 :: db where
  "countAt41 =
     emptyDb\<lparr>proposalTable := [(2, \<lparr>name = TemplateName 2, voteCount = Num 41\<rparr>)]\<rparr>"

definition twoOfThree :: db where
  "twoOfThree =
     emptyDb\<lparr>ballotSnapshot :=
        Some \<lparr>lastIndexedBlock = 128, stage = 2, totalVoters = 3, totalVotes = 2,
              winnerComputed = False, winningProposalId = 0\<rparr>\<rparr>"

section \<open>Verification: the retry policy\<close>

lemma retryLoop_Resolves: "fn a = Resolves v \<Longrightarrow> retryLoop cfg fn a = (Inr v, [])"
  by (subst retryLoop.simps) simp

lemma retryLoop_other:
  "fn a = Rejects e \<Longrightarrow> \<not> isRateLimitError e \<Longrightarrow> retryLoop cfg fn a = (Inl e, [])"
  by (subst retryLoop.simps) simp

lemma retryLoop_exhausted:
  "fn a = Rejects e \<Longrightarrow> RPC_MAX_RETRIES cfg \<le> int a \<Longrightarrow> retryLoop cfg fn a = (Inl e, [])"
  by (subst retryLoop.simps) simp

lemma retryLoop_retry:
  "fn a = Rejects e \<Longrightarrow> isRateLimitError e \<Longrightarrow> int a < RPC_MAX_RETRIES cfg \<Longrightarrow>
   retryLoop cfg fn a = apsnd ((#) (waitMs cfg a)) (retryLoop cfg fn (Suc a))"
  by (subst retryLoop.simps) simp

text \<open>As long as the calls fail rate-limited below the cap, the loop waits and goes on.\<close>

lemma retryLoop_steps:
  assumes "\<And>i. a \<le> i \<Longrightarrow> i < k \<Longrightarrow>
             (\<exists>e. fn i = Rejects e \<and> isRateLimitError e) \<and> int i < RPC_MAX_RETRIES cfg"
    and "a \<le> k"
  shows "retryLoop cfg fn a = apsnd ((@) (map (waitMs cfg) [a..<k])) (retryLoop cfg fn k)"
  using assms(2,1)
proof (induction rule: inc_induct)
  case base
  show ?case by (cases "retryLoop cfg fn k") simp
next
  case (step n)
  from step.prems[of n] step.hyps obtain e
    where e: "fn n = Rejects e" "isRateLimitError e" and lt: "int n < RPC_MAX_RETRIES cfg"
    by auto
  have IH: "retryLoop cfg fn (Suc n) =
            apsnd ((@) (map (waitMs cfg) [Suc n..<k])) (retryLoop cfg fn k)"
    using step.IH step.prems by auto
  have "retryLoop cfg fn n = apsnd ((#) (waitMs cfg n)) (retryLoop cfg fn (Suc n))"
    using e lt by (rule retryLoop_retry[where fn = fn and a = n])
  then show ?case
    unfolding IH using step.hyps
    by (cases "retryLoop cfg fn k") (simp add: upt_conv_Cons)
qed

text \<open>
  Claim C6. Let call number \<open>k\<close> (counted from 0) be the first call of the wrapped operation
  that succeeds, or fails with an error that is not a rate-limit signal, or fails when the
  attempt counter has reached \<^verbatim>\<open>RPC_MAX_RETRIES\<close>; every call before it failed with a
  rate-limit error below the cap. Then \<^verbatim>\<open>withRetry\<close> returns the result of call \<open>k\<close>
  unchanged if it succeeded and rethrows its error otherwise, and the waits slept through
  are exactly \<open>min (base * 2^a) cap\<close> for the attempts \<open>a = 0, ..., k - 1\<close>. With \<open>k = 0\<close>:
  a success is returned at once, and an error that is not a rate-limit signal propagates
  at its first occurrence with no wait and no retry.
\<close>

theorem withRetry_policy:
  assumes "\<forall>i<k. (\<exists>e. fn i = Rejects e \<and> isRateLimitError e) \<and> int i < RPC_MAX_RETRIES cfg"
    and "(\<exists>v. fn k = Resolves v) \<or>
         (\<exists>e. fn k = Rejects e \<and> (\<not> isRateLimitError e \<or> RPC_MAX_RETRIES cfg \<le> int k))"
  shows "withRetry cfg fn =
           (case fn k of Resolves v \<Rightarrow> Inr v | Rejects e \<Rightarrow> Inl e,
            map (\<lambda>a. min (RPC_BACKOFF_BASE_MS cfg * 2 ^ a) (RPC_BACKOFF_CAP_MS cfg)) [0..<k])"
proof -
  have w: "map (\<lambda>a. min (RPC_BACKOFF_BASE_MS cfg * 2 ^ a) (RPC_BACKOFF_CAP_MS cfg)) [0..<k]
           = map (waitMs cfg) [0..<k]"
    by (simp add: waitMs_def)
  have steps: "retryLoop cfg fn 0 = apsnd ((@) (map (waitMs cfg) [0..<k])) (retryLoop cfg fn k)"
    using assms(1) by (intro retryLoop_steps) auto
  from assms(2) have "retryLoop cfg fn k = (case fn k of Resolves v \<Rightarrow> Inr v | Rejects e \<Rightarrow> Inl e, [])"
    by (auto simp: retryLoop_Resolves retryLoop_other retryLoop_exhausted)
  then show ?thesis
    unfolding withRetry_def w steps by simp
qed

theorem withRetry_policy_witness:
  "withRetry exampleConfig failsTwice = (Inr 130, [1500, 3000])
   \<and> withRetry exampleConfig failsHard = (Inl badRange, [])
   \<and> withRetry exampleConfig alwaysLimited =
       (Inl rateLimited, [1500, 3000, 6000, 12000, 24000, 30000, 30000, 30000])"
proof -
  have rl: "isRateLimitError rateLimited"
    by (simp add: isRateLimitError_def rateLimited_def codeTruthy_def)
  have nrl: "\<not> isRateLimitError badRange"
    by (simp add: isRateLimitError_def badRange_def codeTruthy_def sublist_Cons_right prefix_code)
  have u2: "[0..<2] = [0, Suc 0]" and u8: "[0..<8] = [0, 1, 2, 3, 4, 5, 6, 7]"
    by (simp_all add: upt_rec)
  have a: "withRetry exampleConfig failsTwice = (Inr 130, [1500, 3000])"
    using withRetry_policy[of 2 failsTwice exampleConfig] rl
    by (simp add: failsTwice_def exampleConfig_def u2)
  have b: "withRetry exampleConfig failsHard = (Inl badRange, [])"
    using withRetry_policy[of 0 failsHard exampleConfig] nrl
    by (simp add: failsHard_def)
  have c: "withRetry exampleConfig alwaysLimited =
       (Inl rateLimited, [1500, 3000, 6000, 12000, 24000, 30000, 30000, 30000])"
    using withRetry_policy[of 8 alwaysLimited exampleConfig] rl
    by (simp add: alwaysLimited_def exampleConfig_def u8)
  show ?thesis using a b c by simp
qed

section \<open>Verification: the projection\<close>

lemmas project_defs =
  applyReadModelProjection_def upsertSnapshot_def updateSnapshot_def projectStageChanged_def
  projectVoterRegistered_def projectVoteCast_def projectFinalized_def

lemma projection_onChainEvents [simp]:
  "onChainEvents (applyReadModelProjection d n a b t) = onChainEvents d"
  by (simp add: project_defs Let_def split: jsval.splits jsnum.splits option.splits prod.splits)

lemma projection_syncState [simp]:
  "syncState (applyReadModelProjection d n a b t) = syncState d"
  by (simp add: project_defs Let_def split: jsval.splits jsnum.splits option.splits prod.splits)

lemma stageChanged_effect:
  "Number (getArg a ''newStage'' 0) = Num n \<Longrightarrow>
   applyReadModelProjection d ''StageChanged'' a b tx =
     d\<lparr>ballotSnapshot := Some ((snapshotRow b d)\<lparr>stage := n\<rparr>)\<rparr>"
  by (simp add: project_defs snapshotRow_def Let_def split: option.splits)

lemma voterRegistered_effect:
  "getArg a ''voter'' 0 = JString s \<Longrightarrow>
   applyReadModelProjection d ''VoterRegistered'' a b tx =
     d\<lparr>ballotSnapshot :=
         Some ((snapshotRow b d)\<lparr>totalVoters := totalVoters (snapshotRow b d) + 1\<rparr>),
       voterTable := (voterTable d)(toLowerCase s \<mapsto>
          (let w = (case getArg a ''weight'' 1 of
                      JUndefined \<Rightarrow> Num 1
                    | JString x \<Rightarrow> Number (JString x))
           in case voterTable d (toLowerCase s) of
                None \<Rightarrow> \<lparr>weight = w, hasVoted = False, registeredAtBlock = Some b,
                          lastUpdatedBlock = b\<rparr>
              | Some r \<Rightarrow> r\<lparr>weight := w, registeredAtBlock := Some b,
                            lastUpdatedBlock := b\<rparr>))\<rparr>"
  by (simp add: project_defs snapshotRow_def Let_def split: option.splits jsval.splits)

lemma voteCast_effect:
  "getArg a ''voter'' 0 = JString s \<Longrightarrow> Number (getArg a ''proposalId'' 1) = Num p \<Longrightarrow>
   applyReadModelProjection d ''VoteCast'' a b tx =
     (let w = Number (getArg a ''weight'' 2);
          k = toLowerCase s;
          current = (case map_of (proposalTable d) p of Some r \<Rightarrow> voteCount r | None \<Rightarrow> Num 0);
          next = js_add current (if isFinite w then w else Num 0)
      in d\<lparr>ballotSnapshot :=
             Some ((snapshotRow b d)\<lparr>totalVotes := totalVotes (snapshotRow b d) + 1\<rparr>),
           voteTable := (voteTable d)(k \<mapsto>
              \<lparr>vote_proposalId = p, vote_weight = w, vote_txHash = tx, vote_blockNumber = b\<rparr>),
           voterTable := (voterTable d)(k \<mapsto>
              (case voterTable d k of
                 None \<Rightarrow> \<lparr>weight = (if isFinite w then w else Num 1), hasVoted = True,
                           registeredAtBlock = None, lastUpdatedBlock = b\<rparr>
               | Some r \<Rightarrow> r\<lparr>hasVoted := True, lastUpdatedBlock := b\<rparr>)),
           proposalTable := AList.update p
              (case map_of (proposalTable d) p of
                 None \<Rightarrow> \<lparr>name = TemplateName p, voteCount = next\<rparr>
               | Some r \<Rightarrow> r\<lparr>voteCount := next\<rparr>) (proposalTable d)\<rparr>)"
  by (simp add: project_defs snapshotRow_def Let_def split: option.splits jsval.splits)

lemma finalized_effect:
  "Number (getArg a ''winningProposalId'' 0) = Num n \<Longrightarrow>
   applyReadModelProjection d ''Finalized'' a b tx =
     d\<lparr>ballotSnapshot :=
         Some ((snapshotRow b d)\<lparr>winnerComputed := True, winningProposalId := n\<rparr>)\<rparr>"
  by (simp add: project_defs snapshotRow_def Let_def split: option.splits)

lemma otherKind_effect:
  "eventName \<noteq> ''StageChanged'' \<Longrightarrow> eventName \<noteq> ''VoterRegistered'' \<Longrightarrow>
   eventName \<noteq> ''VoteCast'' \<Longrightarrow> eventName \<noteq> ''Finalized'' \<Longrightarrow>
   applyReadModelProjection d eventName a b tx = d\<lparr>ballotSnapshot := Some (snapshotRow b d)\<rparr>"
  by (simp add: project_defs snapshotRow_def Let_def split: option.splits)

lemma lastIndexedBlock_always:
  "\<exists>S. ballotSnapshot (applyReadModelProjection d eventName a b tx) = Some S
       \<and> lastIndexedBlock S = b"
  by (simp add: project_defs defaultSnapshot_def Let_def
        split: jsval.splits jsnum.splits option.splits prod.splits)

text \<open>Integers below \<open>2^53\<close> are JavaScript numbers, and their sums are exact.\<close>

lemma toDouble_exact: "n < 2 ^ 53 \<Longrightarrow> toDouble n = Num n"
proof -
  assume a: "n < 2 ^ 53"
  have "(2::nat) ^ 53 < 2 ^ 1024 - 2 ^ 970" by simp
  with a show ?thesis by (simp add: toDouble_def roundToDouble_def)
qed

text \<open>The example logs, decoded.\<close>

lemma decode_stageChangedLog:
  "decodeLog stageChangedLog =
     (''StageChanged'',
      \<lparr>named = Map.empty, positional = [JString (DecStr 1), JString (DecStr 1700000000)]\<rparr>)"
  by (simp add: decodeLog_def stageChangedLog_def nameOrUnknown_def emptyArgs_def setIndex_def)

lemma decode_voterRegisteredLog:
  "decodeLog voterRegisteredLog =
     (''VoterRegistered'',
      \<lparr>named = Map.empty,
       positional = [JString (HexStr ''5B38Da6a701c568545dCfcB03FcB875f56beddC4''),
                     JString (DecStr 1)]\<rparr>)"
  by (simp add: decodeLog_def voterRegisteredLog_def nameOrUnknown_def emptyArgs_def setIndex_def)

lemma decode_voteCastLog:
  "decodeLog voteCastLog =
     (''VoteCast'',
      \<lparr>named = [''voter'' \<mapsto> JString (HexStr ''Ab8483F64d9C6d1EcF9b849Ae677dD3315835cb2''),
                ''proposalId'' \<mapsto> JString (DecStr 2), ''weight'' \<mapsto> JString (DecStr 1)],
       positional = [JString (HexStr ''Ab8483F64d9C6d1EcF9b849Ae677dD3315835cb2''),
                     JString (DecStr 2), JString (DecStr 1)]\<rparr>)"
  by (simp add: decodeLog_def voteCastLog_def nameOrUnknown_def emptyArgs_def setIndex_def)

lemma decode_finalizedLog:
  "decodeLog finalizedLog =
     (''Finalized'',
      \<lparr>named = Map.empty,
       positional = [JString (DecStr 2), JString (DecStr 1), JString (DecStr 1700009999)]\<rparr>)"
  by (simp add: decodeLog_def finalizedLog_def nameOrUnknown_def emptyArgs_def setIndex_def)

lemma decode_unparsedLog: "decodeLog unparsedLog = (''UnknownEvent'', emptyArgs)"
  by (simp add: decodeLog_def unparsedLog_def)

lemma Number_small: "n < 2 ^ 53 \<Longrightarrow> Number (JString (DecStr n)) = Num n"
  by (simp add: Number_def toDouble_exact)

text \<open>
  Claim C2. The projection maps each event kind to a fixed recipe. Below, \<open>snapshotRow b d\<close>
  is the snapshot row after the upsert that opens every projection (created if missing,
  \<open>lastIndexedBlock\<close> set to the event's block \<open>b\<close>).
  \<^item> \<^verbatim>\<open>StageChanged\<close> carrying a numeric \<open>newStage\<close>: the stage is set to it and nothing
    else changes.
  \<^item> \<^verbatim>\<open>VoterRegistered\<close> carrying a voter: the voter row is upserted under the lower-cased
    address (weight, \<open>registeredAtBlock\<close>, \<open>lastUpdatedBlock\<close>; \<open>hasVoted\<close> false on
    creation, kept on update) and \<open>totalVoters\<close> grows by 1.
  \<^item> \<^verbatim>\<open>VoteCast\<close> carrying a voter and a numeric proposal id: the voter's single vote
    row is written, the voter row has \<open>hasVoted\<close> true, the proposal's \<open>voteCount\<close> becomes
    the JavaScript sum of the stored count and the weight, and \<open>totalVotes\<close> grows by 1.
    For a stored count \<open>c\<close> and a weight \<open>x\<close> with \<open>c + x < 2^53\<close> that sum is \<open>c + x\<close>.
  \<^item> \<^verbatim>\<open>Finalized\<close> carrying a numeric winner: \<open>winnerComputed\<close> is set and
    \<open>winningProposalId\<close> is the winner.
  \<^item> Any other event name leaves every table as it was, but for the snapshot upsert.
  \<^item> For every event of any name the snapshot exists afterwards and its
    \<open>lastIndexedBlock\<close> is the event's block.
\<close>

theorem projection_recipe:
  "(Number (getArg a ''newStage'' 0) = Num n \<longrightarrow>
      applyReadModelProjection d ''StageChanged'' a b tx =
        d\<lparr>ballotSnapshot := Some ((snapshotRow b d)\<lparr>stage := n\<rparr>)\<rparr>)
   \<and> (getArg a ''voter'' 0 = JString s \<longrightarrow>
      applyReadModelProjection d ''VoterRegistered'' a b tx =
        d\<lparr>ballotSnapshot :=
            Some ((snapshotRow b d)\<lparr>totalVoters := totalVoters (snapshotRow b d) + 1\<rparr>),
          voterTable := (voterTable d)(toLowerCase s \<mapsto>
            (let w = (case getArg a ''weight'' 1 of
                        JUndefined \<Rightarrow> Num 1
                      | JString x \<Rightarrow> Number (JString x))
             in case voterTable d (toLowerCase s) of
                  None \<Rightarrow> \<lparr>weight = w, hasVoted = False, registeredAtBlock = Some b,
                            lastUpdatedBlock = b\<rparr>
                | Some r \<Rightarrow> r\<lparr>weight := w, registeredAtBlock := Some b,
                              lastUpdatedBlock := b\<rparr>))\<rparr>)
   \<and> (getArg a ''voter'' 0 = JString s \<and> Number (getArg a ''proposalId'' 1) = Num p \<longrightarrow>
      applyReadModelProjection d ''VoteCast'' a b tx =
        (let w = Number (getArg a ''weight'' 2);
             k = toLowerCase s;
             current = (case map_of (proposalTable d) p of
                          Some r \<Rightarrow> voteCount r
                        | None \<Rightarrow> Num 0);
             next = js_add current (if isFinite w then w else Num 0)
         in d\<lparr>ballotSnapshot :=
                Some ((snapshotRow b d)\<lparr>totalVotes := totalVotes (snapshotRow b d) + 1\<rparr>),
              voteTable := (voteTable d)(k \<mapsto>
                \<lparr>vote_proposalId = p, vote_weight = w, vote_txHash = tx,
                 vote_blockNumber = b\<rparr>),
              voterTable := (voterTable d)(k \<mapsto>
                (case voterTable d k of
                   None \<Rightarrow> \<lparr>weight = (if isFinite w then w else Num 1), hasVoted = True,
                             registeredAtBlock = None, lastUpdatedBlock = b\<rparr>
                 | Some r \<Rightarrow> r\<lparr>hasVoted := True, lastUpdatedBlock := b\<rparr>)),
              proposalTable := AList.update p
                (case map_of (proposalTable d) p of
                   None \<Rightarrow> \<lparr>name = TemplateName p, voteCount = next\<rparr>
                 | Some r \<Rightarrow> r\<lparr>voteCount := next\<rparr>) (proposalTable d)\<rparr>))
   \<and> (c + x < 2 ^ 53 \<longrightarrow> js_add (Num c) (if isFinite (Num x) then Num x else Num 0) = Num (c + x))
   \<and> (Number (getArg a ''winningProposalId'' 0) = Num n \<longrightarrow>
      applyReadModelProjection d ''Finalized'' a b tx =
        d\<lparr>ballotSnapshot :=
            Some ((snapshotRow b d)\<lparr>winnerComputed := True, winningProposalId := n\<rparr>)\<rparr>)
   \<and> (eventName \<noteq> ''StageChanged'' \<and> eventName \<noteq> ''VoterRegistered'' \<and>
      eventName \<noteq> ''VoteCast'' \<and> eventName \<noteq> ''Finalized'' \<longrightarrow>
      applyReadModelProjection d eventName a b tx = d\<lparr>ballotSnapshot := Some (snapshotRow b d)\<rparr>)
   \<and> (\<exists>S. ballotSnapshot (applyReadModelProjection d eventName a b tx) = Some S
          \<and> lastIndexedBlock S = b)"
proof (intro conjI impI)
  show "\<exists>S. ballotSnapshot (applyReadModelProjection d eventName a b tx) = Some S
          \<and> lastIndexedBlock S = b"
    by (rule lastIndexedBlock_always)
next
  assume "c + x < 2 ^ 53"
  then show "js_add (Num c) (if isFinite (Num x) then Num x else Num 0) = Num (c + x)"
    by (simp add: isFinite_def toDouble_exact)
qed (simp_all add: stageChanged_effect voterRegistered_effect voteCast_effect finalized_effect
       otherKind_effect)


text \<open>
  The recipe at the events of the example, each applied to the empty store.
\<close>

theorem projection_recipe_witness:
  "applyReadModelProjection emptyDb ''StageChanged'' (snd (decodeLog stageChangedLog)) 105 ''0xaa01''
     = emptyDb\<lparr>ballotSnapshot := Some ((defaultSnapshot 105)\<lparr>stage := 1\<rparr>)\<rparr>
   \<and> applyReadModelProjection emptyDb ''VoterRegistered'' (snd (decodeLog voterRegisteredLog)) 107 ''0xaa02''
     = emptyDb\<lparr>ballotSnapshot := Some ((defaultSnapshot 107)\<lparr>totalVoters := 1\<rparr>),
              voterTable := [HexStr ''5b38da6a701c568545dcfcb03fcb875f56beddc4'' \<mapsto>
                 \<lparr>weight = Num 1, hasVoted = False, registeredAtBlock = Some 107,
                  lastUpdatedBlock = 107\<rparr>]\<rparr>
   \<and> applyReadModelProjection emptyDb ''VoteCast'' (snd (decodeLog voteCastLog)) 123 ''0xaa04''
     = emptyDb\<lparr>ballotSnapshot := Some ((defaultSnapshot 123)\<lparr>totalVotes := 1\<rparr>),
              voteTable := [HexStr ''ab8483f64d9c6d1ecf9b849ae677dd3315835cb2'' \<mapsto>
                 \<lparr>vote_proposalId = 2, vote_weight = Num 1, vote_txHash = ''0xaa04'',
                  vote_blockNumber = 123\<rparr>],
              voterTable := [HexStr ''ab8483f64d9c6d1ecf9b849ae677dd3315835cb2'' \<mapsto>
                 \<lparr>weight = Num 1, hasVoted = True, registeredAtBlock = None,
                  lastUpdatedBlock = 123\<rparr>],
              proposalTable := [(2, \<lparr>name = TemplateName 2, voteCount = Num 1\<rparr>)]\<rparr>
   \<and> js_add (Num 3) (if isFinite (Num 4) then Num 4 else Num 0) = Num 7
   \<and> applyReadModelProjection emptyDb ''Finalized'' (snd (decodeLog finalizedLog)) 127 ''0xaa05''
     = emptyDb\<lparr>ballotSnapshot :=
         Some ((defaultSnapshot 127)\<lparr>winnerComputed := True, winningProposalId := 2\<rparr>)\<rparr>
   \<and> applyReadModelProjection emptyDb ''UnknownEvent'' emptyArgs 108 ''0xaa03''
     = emptyDb\<lparr>ballotSnapshot := Some (defaultSnapshot 108)\<rparr>"
proof -
  have sr: "\<And>b. snapshotRow b emptyDb = defaultSnapshot b"
    by (simp add: snapshotRow_def emptyDb_def)
  have one: "toDouble (Suc 0) = Num (Suc 0)"
    by (simp add: toDouble_exact)
  have s1: "Number (getArg (snd (decodeLog stageChangedLog)) ''newStage'' 0) = Num 1"
    by (simp add: decode_stageChangedLog getArg_def Number_small)
  have c1: "applyReadModelProjection emptyDb ''StageChanged'' (snd (decodeLog stageChangedLog)) 105 ''0xaa01''
     = emptyDb\<lparr>ballotSnapshot := Some ((defaultSnapshot 105)\<lparr>stage := 1\<rparr>)\<rparr>"
    using projection_recipe[THEN conjunct1, THEN mp, OF s1, of emptyDb 105 "''0xaa01''"]
    by (simp add: sr)
  have s2: "getArg (snd (decodeLog voterRegisteredLog)) ''voter'' 0
              = JString (HexStr ''5B38Da6a701c568545dCfcB03FcB875f56beddC4'')"
    by (simp add: decode_voterRegisteredLog getArg_def)
  have w2: "getArg (snd (decodeLog voterRegisteredLog)) ''weight'' (Suc 0) = JString (DecStr 1)"
    by (simp add: decode_voterRegisteredLog getArg_def)
  have c2: "applyReadModelProjection emptyDb ''VoterRegistered'' (snd (decodeLog voterRegisteredLog)) 107 ''0xaa02''
     = emptyDb\<lparr>ballotSnapshot := Some ((defaultSnapshot 107)\<lparr>totalVoters := 1\<rparr>),
              voterTable := [HexStr ''5b38da6a701c568545dcfcb03fcb875f56beddc4'' \<mapsto>
                 \<lparr>weight = Num 1, hasVoted = False, registeredAtBlock = Some 107,
                  lastUpdatedBlock = 107\<rparr>]\<rparr>"
    using projection_recipe[THEN conjunct2, THEN conjunct1, THEN mp, OF s2,
        of emptyDb 107 "''0xaa02''"]
    by (simp add: sr w2 lowerChar_def Number_small) (simp add: emptyDb_def defaultSnapshot_def)
  have s3: "getArg (snd (decodeLog voteCastLog)) ''voter'' 0
              = JString (HexStr ''Ab8483F64d9C6d1EcF9b849Ae677dD3315835cb2'')
            \<and> Number (getArg (snd (decodeLog voteCastLog)) ''proposalId'' 1) = Num 2"
    by (simp add: decode_voteCastLog getArg_def Number_small)
  have w3: "Number (getArg (snd (decodeLog voteCastLog)) ''weight'' 2) = Num 1"
    by (simp add: decode_voteCastLog getArg_def Number_small)
  have c3: "applyReadModelProjection emptyDb ''VoteCast'' (snd (decodeLog voteCastLog)) 123 ''0xaa04''
     = emptyDb\<lparr>ballotSnapshot := Some ((defaultSnapshot 123)\<lparr>totalVotes := 1\<rparr>),
              voteTable := [HexStr ''ab8483f64d9c6d1ecf9b849ae677dd3315835cb2'' \<mapsto>
                 \<lparr>vote_proposalId = 2, vote_weight = Num 1, vote_txHash = ''0xaa04'',
                  vote_blockNumber = 123\<rparr>],
              voterTable := [HexStr ''ab8483f64d9c6d1ecf9b849ae677dd3315835cb2'' \<mapsto>
                 \<lparr>weight = Num 1, hasVoted = True, registeredAtBlock = None,
                  lastUpdatedBlock = 123\<rparr>],
              proposalTable := [(2, \<lparr>name = TemplateName 2, voteCount = Num 1\<rparr>)]\<rparr>"
    using projection_recipe[THEN conjunct2, THEN conjunct2, THEN conjunct1, THEN mp, OF s3,
        of emptyDb 123 "''0xaa04''"]
    by (simp add: sr w3 lowerChar_def isFinite_def one Let_def)
       (simp add: emptyDb_def defaultSnapshot_def isFinite_def one)
  have "(3::nat) + 4 < 2 ^ 53" by simp
  from projection_recipe[THEN conjunct2, THEN conjunct2, THEN conjunct2, THEN conjunct1,
      THEN mp, OF this]
  have c4: "js_add (Num 3) (if isFinite (Num 4) then Num 4 else Num 0) = Num 7"
    by simp
  have s5: "Number (getArg (snd (decodeLog finalizedLog)) ''winningProposalId'' 0) = Num 2"
    by (simp add: decode_finalizedLog getArg_def Number_small)
  have c5: "applyReadModelProjection emptyDb ''Finalized'' (snd (decodeLog finalizedLog)) 127 ''0xaa05''
     = emptyDb\<lparr>ballotSnapshot :=
         Some ((defaultSnapshot 127)\<lparr>winnerComputed := True, winningProposalId := 2\<rparr>)\<rparr>"
    using projection_recipe[THEN conjunct2, THEN conjunct2, THEN conjunct2, THEN conjunct2,
        THEN conjunct1, THEN mp, OF s5, of emptyDb 127 "''0xaa05''"]
    by (simp add: sr)
  have s6: "''UnknownEvent'' \<noteq> ''StageChanged'' \<and> ''UnknownEvent'' \<noteq> ''VoterRegistered'' \<and>
      ''UnknownEvent'' \<noteq> ''VoteCast'' \<and> ''UnknownEvent'' \<noteq> ''Finalized''"
    by simp
  have c6: "applyReadModelProjection emptyDb ''UnknownEvent'' emptyArgs 108 ''0xaa03''
     = emptyDb\<lparr>ballotSnapshot := Some (defaultSnapshot 108)\<rparr>"
    using projection_recipe[THEN conjunct2, THEN conjunct2, THEN conjunct2, THEN conjunct2,
        THEN conjunct2, THEN conjunct1, THEN mp, OF s6, of emptyDb emptyArgs 108 "''0xaa03''"]
    by (simp add: sr)
  show ?thesis using c1 c2 c3 c4 c5 c6 by simp
qed

text \<open>
  Claim C9. A \<^verbatim>\<open>VoteCast\<close> event that carries a voter and a numeric proposal id, for a
  voter who has no row yet, creates the voter row with \<open>hasVoted\<close> true, \<open>registeredAtBlock\<close>
  null, \<open>lastUpdatedBlock\<close> the event's block and the vote's weight if that is finite, 1
  otherwise. The vote is not dropped: the vote row is written and \<open>totalVotes\<close> grows by 1.
\<close>

theorem voteCast_unregistered_voter:
  assumes "getArg a ''voter'' 0 = JString s"
    and "Number (getArg a ''proposalId'' 1) = Num p"
    and "voterTable d (toLowerCase s) = None"
  shows "voterTable (applyReadModelProjection d ''VoteCast'' a b tx) (toLowerCase s) =
           Some \<lparr>weight = (if isFinite (Number (getArg a ''weight'' 2))
                            then Number (getArg a ''weight'' 2) else Num 1),
                 hasVoted = True, registeredAtBlock = None, lastUpdatedBlock = b\<rparr>
         \<and> voteTable (applyReadModelProjection d ''VoteCast'' a b tx) (toLowerCase s) =
           Some \<lparr>vote_proposalId = p, vote_weight = Number (getArg a ''weight'' 2),
                 vote_txHash = tx, vote_blockNumber = b\<rparr>
         \<and> (\<exists>S. ballotSnapshot (applyReadModelProjection d ''VoteCast'' a b tx) = Some S
               \<and> totalVotes S = totalVotes (snapshotRow b d) + 1)"
  using assms by (simp add: voteCast_effect Let_def)

text \<open>
  A vote by an unregistered voter in the example, and one whose weight is missing (the
  weight is \<^verbatim>\<open>NaN\<close>, the row gets weight 1).
\<close>

theorem voteCast_unregistered_voter_witness:
  "voterTable (applyReadModelProjection emptyDb ''VoteCast'' (snd (decodeLog voteCastLog)) 123 ''0xaa04'')
       (HexStr ''ab8483f64d9c6d1ecf9b849ae677dd3315835cb2'') =
     Some \<lparr>weight = Num 1, hasVoted = True, registeredAtBlock = None, lastUpdatedBlock = 123\<rparr>
   \<and> voterTable (applyReadModelProjection emptyDb ''VoteCast''
         \<lparr>named = [''voter'' \<mapsto> JString (HexStr ''Ab84''), ''proposalId'' \<mapsto> JString (DecStr 0)],
          positional = []\<rparr> 123 ''0xaa04'')
       (HexStr ''ab84'') =
     Some \<lparr>weight = Num 1, hasVoted = True, registeredAtBlock = None, lastUpdatedBlock = 123\<rparr>"
proof -
  have s3: "getArg (snd (decodeLog voteCastLog)) ''voter'' 0
              = JString (HexStr ''Ab8483F64d9C6d1EcF9b849Ae677dD3315835cb2'')"
    "Number (getArg (snd (decodeLog voteCastLog)) ''proposalId'' 1) = Num 2"
    "Number (getArg (snd (decodeLog voteCastLog)) ''weight'' 2) = Num 1"
    by (simp_all add: decode_voteCastLog getArg_def Number_small)
  have a: "voterTable (applyReadModelProjection emptyDb ''VoteCast'' (snd (decodeLog voteCastLog)) 123 ''0xaa04'')
       (HexStr ''ab8483f64d9c6d1ecf9b849ae677dd3315835cb2'') =
     Some \<lparr>weight = Num 1, hasVoted = True, registeredAtBlock = None, lastUpdatedBlock = 123\<rparr>"
    using voteCast_unregistered_voter[where a = "snd (decodeLog voteCastLog)" and d = emptyDb
        and s = "HexStr ''Ab8483F64d9C6d1EcF9b849Ae677dD3315835cb2''" and p = 2
        and b = 123 and tx = "''0xaa04''"] s3
    by (simp add: lowerChar_def isFinite_def emptyDb_def)
  let ?a = "\<lparr>named = [''voter'' \<mapsto> JString (HexStr ''Ab84''), ''proposalId'' \<mapsto> JString (DecStr 0)],
          positional = []\<rparr>"
  have s4: "getArg ?a ''voter'' 0 = JString (HexStr ''Ab84'')"
    "Number (getArg ?a ''proposalId'' 1) = Num 0"
    "Number (getArg ?a ''weight'' 2) = NaN"
    by (simp_all add: getArg_def Number_small) (simp add: Number_def)
  have b: "voterTable (applyReadModelProjection emptyDb ''VoteCast'' ?a 123 ''0xaa04'')
       (HexStr ''ab84'') =
     Some \<lparr>weight = Num 1, hasVoted = True, registeredAtBlock = None, lastUpdatedBlock = 123\<rparr>"
    using voteCast_unregistered_voter[where a = ?a and d = emptyDb
        and s = "HexStr ''Ab84''" and p = 0 and b = 123 and tx = "''0xaa04''"] s4
    by (simp add: lowerChar_def isFinite_def emptyDb_def)
  show ?thesis using a b by simp
qed

section \<open>Verification: recording and replay\<close>


lemma eventKey_rawEventOf [simp]: "eventKey (rawEventOf ev n a) = logKey ev"
  by (simp add: eventKey_def rawEventOf_def logKey_def)

lemma processEntry_duplicate:
  "logKey ev \<in> eventKeys d \<Longrightarrow> processEntry d ev = Inr d"
  by (simp add: processEntry_def createEvent_def eventKeys_def split: prod.splits)

lemma processEntry_new:
  "logKey ev \<notin> eventKeys d \<Longrightarrow>
   processEntry d ev =
     Inr (applyReadModelProjection
            (d\<lparr>onChainEvents := onChainEvents d @ [rawEventOf ev (fst (decodeLog ev)) (snd (decodeLog ev))]\<rparr>)
            (fst (decodeLog ev)) (snd (decodeLog ev)) (ev_blockNumber ev) (ev_transactionHash ev))"
  by (simp add: processEntry_def createEvent_def eventKeys_def split: prod.splits)

lemma processEntry_Inr:
  "\<exists>d'. processEntry d ev = Inr d' \<and> eventKeys d' = insert (logKey ev) (eventKeys d)
        \<and> syncState d' = syncState d"
proof (cases "logKey ev \<in> eventKeys d")
  case True
  then show ?thesis by (auto simp: processEntry_duplicate)
next
  case False
  then show ?thesis by (simp add: processEntry_new) (simp add: eventKeys_def)
qed

lemma processLogs_ok:
  "\<exists>d'. processLogs d logs = (None, d') \<and> eventKeys d' = eventKeys d \<union> logKey ` set logs
        \<and> syncState d' = syncState d"
proof (induction logs arbitrary: d)
  case Nil
  then show ?case by simp
next
  case (Cons ev logs)
  obtain d1 where d1: "processEntry d ev = Inr d1" "eventKeys d1 = insert (logKey ev) (eventKeys d)"
     "syncState d1 = syncState d"
    using processEntry_Inr by blast
  from Cons.IH[of d1] d1 show ?case by auto
qed

lemma processLogs_duplicates:
  "logKey ` set logs \<subseteq> eventKeys d \<Longrightarrow> processLogs d logs = (None, d)"
  by (induction logs) (simp_all add: processEntry_duplicate)

lemma processLogs_replay:
  "processLogs (snd (processLogs d logs)) logs = processLogs d logs"
proof -
  obtain d' where d': "processLogs d logs = (None, d')" "eventKeys d' = eventKeys d \<union> logKey ` set logs"
    using processLogs_ok by blast
  then show ?thesis by (simp add: processLogs_duplicates)
qed

lemma updateSyncState_twice:
  "updateSyncState d t = Inr d2 \<Longrightarrow> updateSyncState d2 t = Inr d2"
  by (auto simp: updateSyncState_def split: option.splits)

lemma processRange_replay:
  "processRange cfg ch (snd (processRange cfg ch d f t)) f t = processRange cfg ch d f t"
proof (cases "fst (withRetry cfg (queryFilter ch f t))")
  case (Inl e)
  then show ?thesis by (simp add: processRange_def)
next
  case (Inr logs)
  obtain d1 where d1: "processLogs d logs = (None, d1)" "eventKeys d1 = eventKeys d \<union> logKey ` set logs"
    "syncState d1 = syncState d"
    using processLogs_ok by blast
  have dup: "processLogs d1 logs = (None, d1)" using d1 by (simp add: processLogs_duplicates)
  show ?thesis
  proof (cases "syncState d")
    case None
    then show ?thesis using Inr d1 dup by (simp add: processRange_def updateSyncState_def)
  next
    case (Some c)
    let ?d2 = "d1\<lparr>syncState := Some t\<rparr>"
    have k: "eventKeys ?d2 = eventKeys d1" by (simp add: eventKeys_def)
    have "processLogs ?d2 logs = (None, ?d2)" using d1 k by (simp add: processLogs_duplicates)
    then show ?thesis using Inr d1 Some by (simp add: processRange_def updateSyncState_def)
  qed
qed


text \<open>
  Claim C1. The projection is invoked for a fetched entry if and only if the insert of its
  raw event reported a new row: an entry whose key is already in the raw event table leaves
  the store exactly as it was and is not an error, and an entry with a new key is appended
  and projected. Consequently, processing the same block range with the same fetched logs
  any number of times (\<open>n + 1\<close> times, for every \<open>n\<close>) leaves the same store, hence the
  same snapshot, voters and proposals, as processing it once.
\<close>

theorem idempotent_apply:
  "processEntry d ev =
     (if logKey ev \<in> eventKeys d then Inr d
      else Inr (applyReadModelProjection
                  (d\<lparr>onChainEvents := onChainEvents d @
                       [rawEventOf ev (fst (decodeLog ev)) (snd (decodeLog ev))]\<rparr>)
                  (fst (decodeLog ev)) (snd (decodeLog ev))
                  (ev_blockNumber ev) (ev_transactionHash ev)))
   \<and> ((\<lambda>x. snd (processRange cfg ch x fromBlock toBlock)) ^^ Suc n) d =
       snd (processRange cfg ch d fromBlock toBlock)"
proof
  show "processEntry d ev =
     (if logKey ev \<in> eventKeys d then Inr d
      else Inr (applyReadModelProjection
                  (d\<lparr>onChainEvents := onChainEvents d @
                       [rawEventOf ev (fst (decodeLog ev)) (snd (decodeLog ev))]\<rparr>)
                  (fst (decodeLog ev)) (snd (decodeLog ev))
                  (ev_blockNumber ev) (ev_transactionHash ev)))"
    by (simp add: processEntry_duplicate processEntry_new)
  show "((\<lambda>x. snd (processRange cfg ch x fromBlock toBlock)) ^^ Suc n) d =
       snd (processRange cfg ch d fromBlock toBlock)"
  proof (induction n)
    case 0
    show ?case by simp
  next
    case (Suc n)
    have "((\<lambda>x. snd (processRange cfg ch x fromBlock toBlock)) ^^ Suc (Suc n)) d =
          snd (processRange cfg ch
                 (((\<lambda>x. snd (processRange cfg ch x fromBlock toBlock)) ^^ Suc n) d)
                 fromBlock toBlock)"
      by simp
    also have "\<dots> = snd (processRange cfg ch (snd (processRange cfg ch d fromBlock toBlock))
                        fromBlock toBlock)"
      by (simp only: Suc.IH)
    also have "\<dots> = snd (processRange cfg ch d fromBlock toBlock)"
      by (simp only: processRange_replay)
    finally show ?case .
  qed
qed

lemma fetch_first_range:
  "fst (withRetry exampleConfig (queryFilter exampleChain 100 109)) =
     Inr [stageChangedLog, voterRegisteredLog, unparsedLog]"
  by (simp add: withRetry_def exampleChain_def retryLoop_Resolves logsBetween_def exampleLogs_def
        stageChangedLog_def voterRegisteredLog_def unparsedLog_def voteCastLog_def finalizedLog_def)

lemma processLogs_first_range:
  "processLogs seededDb [stageChangedLog, voterRegisteredLog, unparsedLog] =
     (None, afterFirstRange\<lparr>syncState := Some 99\<rparr>)"
  by (simp add: seededDb_def emptyDb_def afterFirstRange_def processEntry_def createEvent_def
        eventKey_def rawEventOf_def decode_stageChangedLog decode_voterRegisteredLog
        decode_unparsedLog project_defs defaultSnapshot_def Let_def getArg_def Number_small
        lowerChar_def emptyArgs_def)
     (simp add: stageChangedLog_def voterRegisteredLog_def unparsedLog_def)?

lemma processRange_first_range:
  "processRange exampleConfig exampleChain seededDb 100 109 = (None, afterFirstRange)"
  by (simp only: processRange_def fetch_first_range sum.case processLogs_first_range
        prod.case option.case)
     (simp add: updateSyncState_def afterFirstRange_def)

text \<open>Replaying the first range of the example three times gives the store of one pass.\<close>

theorem idempotent_apply_witness:
  "((\<lambda>x. snd (processRange exampleConfig exampleChain x 100 109)) ^^ Suc 2) seededDb =
     afterFirstRange"
  using idempotent_apply[where d = seededDb and ev = stageChangedLog and cfg = exampleConfig
      and ch = exampleChain and fromBlock = 100 and toBlock = 109 and n = 2]
  by (simp only: processRange_first_range snd_conv)


lemma decodeLog_undecodable:
  "ev_payload ev = RawLog ParseThrows \<or> ev_payload ev = RawLog ParseNull \<Longrightarrow>
   decodeLog ev = (''UnknownEvent'', emptyArgs)"
  by (auto simp: decodeLog_def)

lemma getStats_snapshotRow:
  "getStats (d\<lparr>ballotSnapshot := Some (snapshotRow b d)\<rparr>)\<lparr>st_lastIndexedBlock := 0\<rparr> =
   getStats d\<lparr>st_lastIndexedBlock := 0\<rparr>"
  by (simp add: getStats_def snapshotRow_def defaultSnapshot_def Let_def split: option.splits)

lemma getStats_onChainEvents:
  "getStats (d\<lparr>onChainEvents := es\<rparr>) = getStats d"
  by (simp add: getStats_def)

text \<open>
  Claim C7. For a raw log entry that the contract interface cannot parse (\<^verbatim>\<open>parseLog\<close>
  throws or returns null) \<^verbatim>\<open>decodeLog\<close> returns the name \<^verbatim>\<open>UnknownEvent\<close> with no
  arguments instead of throwing. Processing the entry succeeds. If its key was new, the
  row appended to the raw event table carries the entry's block number, block hash,
  transaction hash and log index, the name \<^verbatim>\<open>UnknownEvent\<close> and no arguments; if the key
  was there already, nothing changes. Voters, votes, proposals and the cursor are
  untouched; the snapshot is touched by the opening upsert only, so that the stats query
  answers as before except for \<open>lastIndexedBlock\<close>; and a list of entries that starts with
  such an entry is processed without error.
\<close>

theorem undecodable_entry_not_fatal:
  assumes "ev_payload ev = RawLog ParseThrows \<or> ev_payload ev = RawLog ParseNull"
  shows "decodeLog ev = (''UnknownEvent'', \<lparr>named = Map.empty, positional = []\<rparr>)
     \<and> (\<exists>d'. processEntry d ev = Inr d'
           \<and> logKey ev \<in> eventKeys d'
           \<and> (logKey ev \<notin> eventKeys d \<longrightarrow>
                onChainEvents d' = onChainEvents d @
                  [\<lparr>oe_blockNumber = ev_blockNumber ev, oe_blockHash = ev_blockHash ev,
                    oe_txHash = ev_transactionHash ev, oe_logIndex = ev_index ev,
                    oe_eventName = ''UnknownEvent'',
                    oe_argsJson = \<lparr>named = Map.empty, positional = []\<rparr>\<rparr>]
                \<and> ballotSnapshot d' = Some (snapshotRow (ev_blockNumber ev) d))
           \<and> (logKey ev \<in> eventKeys d \<longrightarrow> d' = d)
           \<and> voterTable d' = voterTable d \<and> voteTable d' = voteTable d
           \<and> proposalTable d' = proposalTable d \<and> syncState d' = syncState d
           \<and> getStats d'\<lparr>st_lastIndexedBlock := 0\<rparr> = getStats d\<lparr>st_lastIndexedBlock := 0\<rparr>)
     \<and> fst (processLogs d (ev # evs)) = None"
proof (intro conjI)
  have dec: "decodeLog ev = (''UnknownEvent'', emptyArgs)"
    using assms by (rule decodeLog_undecodable)
  then show "decodeLog ev = (''UnknownEvent'', \<lparr>named = Map.empty, positional = []\<rparr>)"
    by (simp add: emptyArgs_def)
  show "fst (processLogs d (ev # evs)) = None"
    using processLogs_ok[of d "ev # evs"] by auto
  show "\<exists>d'. processEntry d ev = Inr d'
           \<and> logKey ev \<in> eventKeys d'
           \<and> (logKey ev \<notin> eventKeys d \<longrightarrow>
                onChainEvents d' = onChainEvents d @
                  [\<lparr>oe_blockNumber = ev_blockNumber ev, oe_blockHash = ev_blockHash ev,
                    oe_txHash = ev_transactionHash ev, oe_logIndex = ev_index ev,
                    oe_eventName = ''UnknownEvent'',
                    oe_argsJson = \<lparr>named = Map.empty, positional = []\<rparr>\<rparr>]
                \<and> ballotSnapshot d' = Some (snapshotRow (ev_blockNumber ev) d))
           \<and> (logKey ev \<in> eventKeys d \<longrightarrow> d' = d)
           \<and> voterTable d' = voterTable d \<and> voteTable d' = voteTable d
           \<and> proposalTable d' = proposalTable d \<and> syncState d' = syncState d
           \<and> getStats d'\<lparr>st_lastIndexedBlock := 0\<rparr> = getStats d\<lparr>st_lastIndexedBlock := 0\<rparr>"
  proof (cases "logKey ev \<in> eventKeys d")
    case True
    then show ?thesis by (simp add: processEntry_duplicate)
  next
    case False
    let ?d1 = "d\<lparr>onChainEvents := onChainEvents d @ [rawEventOf ev ''UnknownEvent'' emptyArgs]\<rparr>"
    have sr: "snapshotRow (ev_blockNumber ev) ?d1 = snapshotRow (ev_blockNumber ev) d"
      by (simp add: snapshotRow_def)
    have pe: "processEntry d ev = Inr (?d1\<lparr>ballotSnapshot := Some (snapshotRow (ev_blockNumber ev) d)\<rparr>)"
      using False by (simp add: processEntry_new dec otherKind_effect sr)
    have gs: "getStats (?d1\<lparr>ballotSnapshot := Some (snapshotRow (ev_blockNumber ev) d)\<rparr>)
                \<lparr>st_lastIndexedBlock := 0\<rparr> = getStats d\<lparr>st_lastIndexedBlock := 0\<rparr>"
      using getStats_snapshotRow[where d = ?d1 and b = "ev_blockNumber ev"]
      by (simp only: sr getStats_onChainEvents)
    have row: "rawEventOf ev ''UnknownEvent'' emptyArgs =
                 \<lparr>oe_blockNumber = ev_blockNumber ev, oe_blockHash = ev_blockHash ev,
                  oe_txHash = ev_transactionHash ev, oe_logIndex = ev_index ev,
                  oe_eventName = ''UnknownEvent'',
                  oe_argsJson = \<lparr>named = Map.empty, positional = []\<rparr>\<rparr>"
      by (simp add: rawEventOf_def emptyArgs_def)
    have key: "logKey ev \<in> eventKeys (?d1\<lparr>ballotSnapshot := Some (snapshotRow (ev_blockNumber ev) d)\<rparr>)"
      by (simp add: eventKeys_def)
    show ?thesis
      unfolding pe using False gs key by (simp add: row)
  qed
qed

text \<open>
  The unparsable log of the example (block 108, log index 3), processed on the empty
  store, and at the head of a list of entries.
\<close>

theorem undecodable_entry_not_fatal_witness:
  "decodeLog unparsedLog = (''UnknownEvent'', \<lparr>named = Map.empty, positional = []\<rparr>)
   \<and> processEntry emptyDb unparsedLog =
       Inr \<lparr>syncState = None,
            onChainEvents =
              [\<lparr>oe_blockNumber = 108, oe_blockHash = ''0xb108'', oe_txHash = ''0xaa03'',
                oe_logIndex = 3, oe_eventName = ''UnknownEvent'',
                oe_argsJson = \<lparr>named = Map.empty, positional = []\<rparr>\<rparr>],
            ballotSnapshot =
              Some \<lparr>lastIndexedBlock = 108, stage = 0, totalVoters = 0, totalVotes = 0,
                    winnerComputed = False, winningProposalId = 0\<rparr>,
            voterTable = Map.empty, voteTable = Map.empty, proposalTable = []\<rparr>
   \<and> fst (processLogs emptyDb [unparsedLog, stageChangedLog]) = None"
proof -
  have p: "ev_payload unparsedLog = RawLog ParseThrows \<or> ev_payload unparsedLog = RawLog ParseNull"
    by (simp add: unparsedLog_def)
  have k: "logKey unparsedLog \<notin> eventKeys emptyDb"
    by (simp add: eventKeys_def emptyDb_def)
  have sr: "snapshotRow (ev_blockNumber unparsedLog) emptyDb = defaultSnapshot 108"
    by (simp add: snapshotRow_def emptyDb_def unparsedLog_def)
  from undecodable_entry_not_fatal[OF p, of emptyDb "[stageChangedLog]"] k sr
  obtain d' where d': "decodeLog unparsedLog = (''UnknownEvent'', \<lparr>named = Map.empty, positional = []\<rparr>)"
     "processEntry emptyDb unparsedLog = Inr d'"
     "onChainEvents d' = onChainEvents emptyDb @
        [\<lparr>oe_blockNumber = ev_blockNumber unparsedLog, oe_blockHash = ev_blockHash unparsedLog,
          oe_txHash = ev_transactionHash unparsedLog, oe_logIndex = ev_index unparsedLog,
          oe_eventName = ''UnknownEvent'',
          oe_argsJson = \<lparr>named = Map.empty, positional = []\<rparr>\<rparr>]"
     "ballotSnapshot d' = Some (defaultSnapshot 108)"
     "voterTable d' = voterTable emptyDb" "voteTable d' = voteTable emptyDb"
     "proposalTable d' = proposalTable emptyDb" "syncState d' = syncState emptyDb"
     "fst (processLogs emptyDb [unparsedLog, stageChangedLog]) = None"
    by auto
  have "d' = \<lparr>syncState = None,
            onChainEvents =
              [\<lparr>oe_blockNumber = 108, oe_blockHash = ''0xb108'', oe_txHash = ''0xaa03'',
                oe_logIndex = 3, oe_eventName = ''UnknownEvent'',
                oe_argsJson = \<lparr>named = Map.empty, positional = []\<rparr>\<rparr>],
            ballotSnapshot =
              Some \<lparr>lastIndexedBlock = 108, stage = 0, totalVoters = 0, totalVotes = 0,
                    winnerComputed = False, winningProposalId = 0\<rparr>,
            voterTable = Map.empty, voteTable = Map.empty, proposalTable = []\<rparr>"
    using d'(3-8) by (cases d') (simp add: emptyDb_def unparsedLog_def defaultSnapshot_def)
  with d'(1,2,9) show ?thesis by simp
qed

section \<open>Verification: the cursor and the ranges of a pass\<close>

lemma processRange_cases:
  assumes "syncState d = Some c"
  shows "(\<exists>e. processRange cfg ch d f t = (Some e, d))
       \<or> (\<exists>d1. processRange cfg ch d f t = (None, d1\<lparr>syncState := Some t\<rparr>)
              \<and> syncState d1 = Some c)"
proof (cases "fst (withRetry cfg (queryFilter ch f t))")
  case (Inl e)
  then show ?thesis by (simp add: processRange_def)
next
  case (Inr logs)
  obtain d1 where d1: "processLogs d logs = (None, d1)" "syncState d1 = syncState d"
    using processLogs_ok by blast
  then have "processRange cfg ch d f t = (None, d1\<lparr>syncState := Some t\<rparr>)"
    using Inr assms by (simp add: processRange_def updateSyncState_def)
  moreover have "syncState d1 = Some c" using d1 assms by simp
  ultimately show ?thesis by blast
qed

lemma catchUpLoop_returns:
  assumes "1 \<le> MAX_LOG_BLOCK_RANGE cfg"
  shows "syncState d = Some c \<Longrightarrow> c < fromBlock \<Longrightarrow>
         \<exists>r d' rs c'. catchUpLoop cfg ch safeLatest d fromBlock done = Some (r, d', rs)
                     \<and> syncState d' = Some c' \<and> c \<le> c'"
proof (induction "nat (safeLatest - fromBlock + 1)" arbitrary: d c fromBlock "done" rule: less_induct)
  case less
  show ?case
  proof (cases "fromBlock \<le> safeLatest")
    case False
    then show ?thesis using less.prems by (subst catchUpLoop.simps) simp
  next
    case True
    let ?t = "min (fromBlock + MAX_LOG_BLOCK_RANGE cfg - 1) safeLatest"
    have t: "fromBlock \<le> ?t" "?t \<le> safeLatest" using True assms by auto
    from processRange_cases[OF less.prems(1), of cfg ch fromBlock ?t]
    show ?thesis
    proof
      assume "\<exists>e. processRange cfg ch d fromBlock ?t = (Some e, d)"
      then show ?thesis using True less.prems
        by (subst catchUpLoop.simps) (auto simp: Let_def)
    next
      assume "\<exists>d1. processRange cfg ch d fromBlock ?t = (None, d1\<lparr>syncState := Some ?t\<rparr>)
              \<and> syncState d1 = Some c"
      then obtain d1 where d1: "processRange cfg ch d fromBlock ?t = (None, d1\<lparr>syncState := Some ?t\<rparr>)"
        by blast
      have m: "nat (safeLatest - (?t + 1) + 1) < nat (safeLatest - fromBlock + 1)"
        using t True by linarith
      have "\<exists>r d' rs c'. catchUpLoop cfg ch safeLatest (d1\<lparr>syncState := Some ?t\<rparr>) (?t + 1)
                (done @ [(fromBlock, ?t)]) = Some (r, d', rs)
                     \<and> syncState d' = Some c' \<and> ?t \<le> c'"
        by (rule less.hyps[OF m]) simp_all
      then obtain r d' rs c' where
        "catchUpLoop cfg ch safeLatest (d1\<lparr>syncState := Some ?t\<rparr>) (?t + 1)
                (done @ [(fromBlock, ?t)]) = Some (r, d', rs)" "syncState d' = Some c'" "?t \<le> c'"
        by blast
      moreover have "c \<le> c'" using \<open>?t \<le> c'\<close> t less.prems(2) by linarith
      ultimately show ?thesis using True d1
        by (subst catchUpLoop.simps) (simp add: Let_def)
    qed
  qed
qed


lemma getOrCreateSyncState_cases:
  "(\<exists>e. getOrCreateSyncState cfg ch d = Inl e)
   \<or> (\<exists>d0 c. getOrCreateSyncState cfg ch d = Inr (d0, c) \<and> syncState d0 = Some c
          \<and> (\<forall>c0. syncState d = Some c0 \<longrightarrow> d0 = d \<and> c = c0))"
  by (cases "fst (withRetry cfg (getBlockNumberInit ch))"; cases "syncState d")
     (simp_all add: getOrCreateSyncState_def Let_def)

lemma catchUpOnce_returns:
  assumes "1 \<le> MAX_LOG_BLOCK_RANGE cfg" and "syncState d = Some c"
  shows "\<exists>r d' rs c'. catchUpOnce cfg ch d = Some (r, d', rs) \<and> syncState d' = Some c' \<and> c \<le> c'"
proof -
  from getOrCreateSyncState_cases[of cfg ch d]
  show ?thesis
  proof
    assume "\<exists>e. getOrCreateSyncState cfg ch d = Inl e"
    then show ?thesis using assms(2) by (auto simp: catchUpOnce_def)
  next
    assume "\<exists>d0 c. getOrCreateSyncState cfg ch d = Inr (d0, c) \<and> syncState d0 = Some c
          \<and> (\<forall>c0. syncState d = Some c0 \<longrightarrow> d0 = d \<and> c = c0)"
    then have g: "getOrCreateSyncState cfg ch d = Inr (d, c)" using assms(2) by auto
    show ?thesis
    proof (cases "fst (withRetry cfg (getBlockNumber ch))")
      case (Inl e)
      then show ?thesis using g assms(2) by (simp add: catchUpOnce_def)
    next
      case (Inr latest)
      show ?thesis
      proof (cases "c + 1 > max (latest - CONFIRMATIONS cfg) 0")
        case True
        then show ?thesis using g Inr assms(2) by (simp add: catchUpOnce_def Let_def)
      next
        case False
        have "\<exists>r d' rs c'. catchUpLoop cfg ch (max (latest - CONFIRMATIONS cfg) 0) d (c + 1) []
                 = Some (r, d', rs) \<and> syncState d' = Some c' \<and> c \<le> c'"
          using assms by (intro catchUpLoop_returns) simp_all
        then show ?thesis using g Inr False by (auto simp: catchUpOnce_def Let_def)
      qed
    qed
  qed
qed

text \<open>
  What one step of a pass does to the cursor: nothing, or the write of the end of the
  range the pass has just gone through.
\<close>

lemma updateSyncState_Some:
  "syncState d = Some k \<Longrightarrow> updateSyncState d t = Inr (d\<lparr>syncState := Some t\<rparr>)"
  by (simp add: updateSyncState_def)

lemma startPass_cases:
  assumes "syncState d = Some k"
  shows "(\<exists>e. startPass cfg ch d = (d, Threw e)) \<or> startPass cfg ch d = (d, Returned)
       \<or> (\<exists>safe. startPass cfg ch d =
             (d, Running \<lparr>p_chain = ch, p_safeLatest = safe, p_fromBlock = k + 1,
                          p_inRange = None\<rparr>))"
proof (cases "fst (withRetry cfg (getBlockNumberInit ch))")
  case (Inl e)
  then show ?thesis by (simp add: startPass_def getOrCreateSyncState_def)
next
  case (Inr latest0)
  then have g: "getOrCreateSyncState cfg ch d = Inr (d, k)"
    using assms by (simp add: getOrCreateSyncState_def Let_def)
  show ?thesis
    by (cases "fst (withRetry cfg (getBlockNumber ch))") (simp_all add: startPass_def g Let_def)
qed

lemma stepPass_cases:
  assumes w: "1 \<le> MAX_LOG_BLOCK_RANGE cfg" and k: "syncState d = Some k" and a: "ahead c p"
  shows "\<exists>d' pr. stepPass cfg p d = (d', pr) \<and>
          ((syncState d' = Some k \<and> (\<forall>p'. pr = Running p' \<longrightarrow> ahead c p'))
           \<or> (\<exists>t. syncState d' = Some t \<and> c < t
                  \<and> pr = Running (p\<lparr>p_fromBlock := t + 1, p_inRange := None\<rparr>)))"
proof (cases "p_inRange p")
  case None
  show ?thesis
  proof (cases "p_fromBlock p \<le> p_safeLatest p")
    case False
    then show ?thesis using None k by (simp add: stepPass_def)
  next
    case True
    let ?t = "min (p_fromBlock p + MAX_LOG_BLOCK_RANGE cfg - 1) (p_safeLatest p)"
    have t: "p_fromBlock p \<le> ?t" using True w by simp
    show ?thesis
    proof (cases "fst (withRetry cfg (queryFilter (p_chain p) (p_fromBlock p) ?t))")
      case (Inl e)
      then show ?thesis using None True k by (simp add: stepPass_def Let_def)
    next
      case (Inr logs)
      then show ?thesis using None True k a t by (simp add: stepPass_def Let_def ahead_def)
    qed
  qed
next
  case (Some tl)
  obtain t logs where tl: "tl = (t, logs)" by (cases tl)
  have ct: "c < t" "p_fromBlock p \<le> t" using a Some tl by (simp_all add: ahead_def)
  show ?thesis
  proof (cases logs)
    case Nil
    then show ?thesis using Some tl k ct
      by (simp add: stepPass_def updateSyncState_Some[OF k])
  next
    case (Cons ev evs)
    obtain d1 where d1: "processEntry d ev = Inr d1" "syncState d1 = syncState d"
      using processEntry_Inr by blast
    then show ?thesis using Some tl Cons k ct a by (simp add: stepPass_def ahead_def)
  qed
qed

lemma perform_general:
  assumes w: "1 \<le> MAX_LOG_BLOCK_RANGE cfg" and k: "syncState (store s) = Some k" and ck: "c \<le> k"
    and r: "\<forall>p\<in>set (running s). ahead c p"
  shows "\<exists>k'. syncState (store (perform cfg a s)) = Some k' \<and> c \<le> k'
            \<and> (\<forall>p\<in>set (running (perform cfg a s)). ahead c p)"
proof (cases a)
  case (Tick ch)
  from startPass_cases[OF k, of cfg ch] show ?thesis
    using Tick k ck r by (auto simp: ahead_def)
next
  case (Resume i)
  show ?thesis
  proof (cases "i < length (running s)")
    case False
    then show ?thesis using Resume k ck r by simp
  next
    case True
    then have ai: "ahead c (running s ! i)" using r by simp
    have sub: "\<And>x. x \<in> set (take i (running s)) \<or> x \<in> set (drop (Suc i) (running s))
                 \<Longrightarrow> ahead c x"
      using r by (auto dest: in_set_takeD in_set_dropD)
    have upd: "\<And>p' x. ahead c p' \<Longrightarrow> x \<in> set ((running s)[i := p']) \<Longrightarrow> ahead c x"
      using r set_update_subset_insert[of "running s" i] by blast
    from stepPass_cases[OF w k ai] obtain d' pr where
      st: "stepPass cfg (running s ! i) (store s) = (d', pr)"
      and cs: "(syncState d' = Some k \<and> (\<forall>p'. pr = Running p' \<longrightarrow> ahead c p'))
           \<or> (\<exists>t. syncState d' = Some t \<and> c < t
                  \<and> pr = Running ((running s ! i)\<lparr>p_fromBlock := t + 1, p_inRange := None\<rparr>))"
      by blast
    from cs show ?thesis
    proof
      assume h: "syncState d' = Some k \<and> (\<forall>p'. pr = Running p' \<longrightarrow> ahead c p')"
      show ?thesis
        using Resume True st h ck sub upd by (cases pr) auto
    next
      assume "\<exists>t. syncState d' = Some t \<and> c < t
                  \<and> pr = Running ((running s ! i)\<lparr>p_fromBlock := t + 1, p_inRange := None\<rparr>)"
      then obtain t where h: "syncState d' = Some t" "c < t"
         "pr = Running ((running s ! i)\<lparr>p_fromBlock := t + 1, p_inRange := None\<rparr>)" by blast
      have "ahead c ((running s ! i)\<lparr>p_fromBlock := t + 1, p_inRange := None\<rparr>)"
        using h(2) by (simp add: ahead_def)
      then show ?thesis using Resume True st h upd by auto
    qed
  qed
qed

lemma perform_alone:
  assumes w: "1 \<le> MAX_LOG_BLOCK_RANGE cfg" and k: "syncState (store s) = Some k"
    and r: "running s = [] \<or> (\<exists>p. running s = [p] \<and> ahead k p)"
    and t: "case a of Tick ch \<Rightarrow> running s = [] | Resume i \<Rightarrow> True"
  shows "\<exists>k'. syncState (store (perform cfg a s)) = Some k' \<and> k \<le> k'
            \<and> (running (perform cfg a s) = []
                 \<or> (\<exists>p. running (perform cfg a s) = [p] \<and> ahead k' p))"
proof (cases a)
  case (Tick ch)
  then have e: "running s = []" using t by simp
  from startPass_cases[OF k, of cfg ch] show ?thesis
    using Tick k e by (auto simp: ahead_def)
next
  case (Resume i)
  show ?thesis
  proof (cases "i < length (running s)")
    case False
    then show ?thesis using Resume k r by auto
  next
    case True
    then obtain p where p: "running s = [p]" "ahead k p" "i = 0" using r by auto
    from stepPass_cases[OF w k p(2)] obtain d' pr where
      st: "stepPass cfg p (store s) = (d', pr)"
      and cs: "(syncState d' = Some k \<and> (\<forall>p'. pr = Running p' \<longrightarrow> ahead k p'))
           \<or> (\<exists>t. syncState d' = Some t \<and> k < t
                  \<and> pr = Running (p\<lparr>p_fromBlock := t + 1, p_inRange := None\<rparr>))"
      by blast
    from cs show ?thesis
    proof
      assume h: "syncState d' = Some k \<and> (\<forall>p'. pr = Running p' \<longrightarrow> ahead k p')"
      show ?thesis using Resume p st h by (cases pr) auto
    next
      assume "\<exists>t. syncState d' = Some t \<and> k < t
                  \<and> pr = Running (p\<lparr>p_fromBlock := t + 1, p_inRange := None\<rparr>)"
      then obtain t where h: "syncState d' = Some t" "k < t"
         "pr = Running (p\<lparr>p_fromBlock := t + 1, p_inRange := None\<rparr>)" by blast
      have "ahead t (p\<lparr>p_fromBlock := t + 1, p_inRange := None\<rparr>)"
        by (simp add: ahead_def)
      then show ?thesis using Resume p st h by auto
    qed
  qed
qed

lemma cursors_general:
  assumes w: "1 \<le> MAX_LOG_BLOCK_RANGE cfg"
  shows "syncState (store s) = Some k \<Longrightarrow> c \<le> k \<Longrightarrow> \<forall>p\<in>set (running s). ahead c p \<Longrightarrow>
         \<exists>ks. cursors cfg acts s = map Some ks \<and> (\<forall>x\<in>set ks. c \<le> x)"
proof (induction acts arbitrary: s k)
  case Nil
  then show ?case by simp
next
  case (Cons a acts)
  from perform_general[OF w Cons.prems, of a] obtain k' where
    k': "syncState (store (perform cfg a s)) = Some k'" "c \<le> k'"
        "\<forall>p\<in>set (running (perform cfg a s)). ahead c p" by blast
  from Cons.IH[OF k'] obtain ks where
    "cursors cfg acts (perform cfg a s) = map Some ks" "\<forall>x\<in>set ks. c \<le> x" by blast
  then have "cursors cfg (a # acts) s = map Some (k' # ks) \<and> (\<forall>x\<in>set (k' # ks). c \<le> x)"
    using k' by simp
  then show ?case by blast
qed

lemma cursors_alone:
  assumes w: "1 \<le> MAX_LOG_BLOCK_RANGE cfg"
  shows "syncState (store s) = Some k \<Longrightarrow>
         running s = [] \<or> (\<exists>p. running s = [p] \<and> ahead k p) \<Longrightarrow>
         overlapFree cfg acts s \<Longrightarrow>
         \<exists>ks. cursors cfg acts s = map Some ks \<and> sorted (k # ks)"
proof (induction acts arbitrary: s k)
  case Nil
  then show ?case by simp
next
  case (Cons a acts)
  have t: "case a of Tick ch \<Rightarrow> running s = [] | Resume i \<Rightarrow> True"
    using Cons.prems(3) by (cases a) (simp_all del: perform.simps)
  have o: "overlapFree cfg acts (perform cfg a s)"
    using Cons.prems(3) by (cases a) (simp_all del: perform.simps)
  from perform_alone[OF w Cons.prems(1,2) t] obtain k' where
    k': "syncState (store (perform cfg a s)) = Some k'"
        "running (perform cfg a s) = [] \<or> (\<exists>p. running (perform cfg a s) = [p] \<and> ahead k' p)"
    and kk: "k \<le> k'" by blast
  from Cons.IH[OF k' o] obtain ks where
    ks: "cursors cfg acts (perform cfg a s) = map Some ks" "sorted (k' # ks)" by blast
  have "cursors cfg (a # acts) s = map Some (k' # ks) \<and> sorted (k # k' # ks)"
    using k' ks kk by auto
  then show ?case by blast
qed

text \<open>
  Run one after the other with no other pass in between, the steps of a pass are
  \<^verbatim>\<open>catchUpOnce\<close>: they end with the same store, and the error logged is the one thrown.
\<close>

lemma withRetry_Resolves: "fn 0 = Resolves v \<Longrightarrow> withRetry cfg fn = (Inr v, [])"
  by (simp add: withRetry_def retryLoop_Resolves)

lemma runSchedule_append:
  "runSchedule cfg (as @ bs) s = runSchedule cfg bs (runSchedule cfg as s)"
  by (induction as arbitrary: s) simp_all

lemma entries_alone:
  "runSchedule cfg (replicate (length logs) (Resume 0))
     \<lparr>store = d, running = [p\<lparr>p_inRange := Some (t, logs)\<rparr>], thrown = errs\<rparr>
   = \<lparr>store = snd (processLogs d logs), running = [p\<lparr>p_inRange := Some (t, [])\<rparr>],
      thrown = errs\<rparr>"
proof (induction logs arbitrary: d)
  case Nil
  then show ?case by simp
next
  case (Cons ev evs)
  obtain d1 where d1: "processEntry d ev = Inr d1"
    using processEntry_Inr by blast
  have "perform cfg (Resume 0)
          \<lparr>store = d, running = [p\<lparr>p_inRange := Some (t, ev # evs)\<rparr>], thrown = errs\<rparr>
        = \<lparr>store = d1, running = [p\<lparr>p_inRange := Some (t, evs)\<rparr>], thrown = errs\<rparr>"
    by (simp add: stepPass_def d1)
  then show ?case using Cons.IH[of d1] d1 by simp
qed

lemma loop_alone:
  assumes w: "1 \<le> MAX_LOG_BLOCK_RANGE cfg"
  shows "syncState d = Some k \<Longrightarrow>
         \<exists>n r d' rs. catchUpLoop cfg ch safeLatest d fromBlock done = Some (r, d', rs)
            \<and> runSchedule cfg (replicate n (Resume 0))
                 \<lparr>store = d,
                  running = [\<lparr>p_chain = ch, p_safeLatest = safeLatest, p_fromBlock = fromBlock,
                              p_inRange = None\<rparr>],
                  thrown = errs\<rparr>
               = \<lparr>store = d', running = [],
                  thrown = errs @ (case r of None \<Rightarrow> [] | Some e \<Rightarrow> [e])\<rparr>"
proof (induction "nat (safeLatest - fromBlock + 1)" arbitrary: d k fromBlock "done" rule: less_induct)
  case less
  let ?p = "\<lparr>p_chain = ch, p_safeLatest = safeLatest, p_fromBlock = fromBlock,
             p_inRange = None\<rparr>"
  let ?s = "\<lparr>store = d, running = [?p], thrown = errs\<rparr>"
  show ?case
  proof (cases "fromBlock \<le> safeLatest")
    case False
    have "catchUpLoop cfg ch safeLatest d fromBlock done = Some (None, d, done)"
      using False by (subst catchUpLoop.simps) simp
    moreover have "runSchedule cfg (replicate 1 (Resume 0)) ?s
                     = \<lparr>store = d, running = [], thrown = errs @ []\<rparr>"
      using False by (simp add: stepPass_def)
    ultimately show ?thesis by (metis option.simps(4))
  next
    case True
    let ?t = "min (fromBlock + MAX_LOG_BLOCK_RANGE cfg - 1) safeLatest"
    have t: "fromBlock \<le> ?t" "?t \<le> safeLatest" using True w by auto
    show ?thesis
    proof (cases "fst (withRetry cfg (queryFilter ch fromBlock ?t))")
      case (Inl e)
      have "catchUpLoop cfg ch safeLatest d fromBlock done = Some (Some (Rpc e), d, done)"
        using True Inl by (subst catchUpLoop.simps) (simp add: Let_def processRange_def)
      moreover have "runSchedule cfg (replicate 1 (Resume 0)) ?s
                       = \<lparr>store = d, running = [], thrown = errs @ [Rpc e]\<rparr>"
        using True Inl by (simp add: stepPass_def Let_def)
      ultimately show ?thesis by (metis option.simps(5))
    next
      case (Inr logs)
      obtain d1 where d1: "processLogs d logs = (None, d1)" "syncState d1 = syncState d"
        using processLogs_ok by blast
      let ?d2 = "d1\<lparr>syncState := Some ?t\<rparr>"
      have pr: "processRange cfg ch d fromBlock ?t = (None, ?d2)"
        using Inr d1 less.prems by (simp add: processRange_def updateSyncState_def)
      have m: "nat (safeLatest - (?t + 1) + 1) < nat (safeLatest - fromBlock + 1)"
        using t True by linarith
      have "\<exists>n r d' rs. catchUpLoop cfg ch safeLatest ?d2 (?t + 1) (done @ [(fromBlock, ?t)])
                 = Some (r, d', rs)
            \<and> runSchedule cfg (replicate n (Resume 0))
                 \<lparr>store = ?d2,
                  running = [\<lparr>p_chain = ch, p_safeLatest = safeLatest, p_fromBlock = ?t + 1,
                              p_inRange = None\<rparr>],
                  thrown = errs\<rparr>
               = \<lparr>store = d', running = [],
                  thrown = errs @ (case r of None \<Rightarrow> [] | Some e \<Rightarrow> [e])\<rparr>"
        by (rule less.hyps[OF m]) simp
      then obtain n r d' rs where
        loop: "catchUpLoop cfg ch safeLatest ?d2 (?t + 1) (done @ [(fromBlock, ?t)])
                 = Some (r, d', rs)"
        and run: "runSchedule cfg (replicate n (Resume 0))
                 \<lparr>store = ?d2,
                  running = [\<lparr>p_chain = ch, p_safeLatest = safeLatest, p_fromBlock = ?t + 1,
                              p_inRange = None\<rparr>],
                  thrown = errs\<rparr>
               = \<lparr>store = d', running = [],
                  thrown = errs @ (case r of None \<Rightarrow> [] | Some e \<Rightarrow> [e])\<rparr>"
        by blast
      have c: "catchUpLoop cfg ch safeLatest d fromBlock done = Some (r, d', rs)"
        using True pr loop by (subst catchUpLoop.simps) (simp add: Let_def)
      have s1: "perform cfg (Resume 0) ?s
                  = \<lparr>store = d, running = [?p\<lparr>p_inRange := Some (?t, logs)\<rparr>], thrown = errs\<rparr>"
        using True Inr by (simp add: stepPass_def Let_def)
      have s2: "runSchedule cfg (replicate (length logs) (Resume 0))
                  \<lparr>store = d, running = [?p\<lparr>p_inRange := Some (?t, logs)\<rparr>], thrown = errs\<rparr>
                = \<lparr>store = d1, running = [?p\<lparr>p_inRange := Some (?t, [])\<rparr>], thrown = errs\<rparr>"
        using entries_alone[where cfg = cfg and logs = logs and d = d and p = ?p and t = ?t and errs = errs] d1 by simp
      have k1: "syncState d1 = Some k" using d1 less.prems by simp
      have s3: "perform cfg (Resume 0)
                  \<lparr>store = d1, running = [?p\<lparr>p_inRange := Some (?t, [])\<rparr>], thrown = errs\<rparr>
                = \<lparr>store = ?d2,
                   running = [\<lparr>p_chain = ch, p_safeLatest = safeLatest, p_fromBlock = ?t + 1,
                               p_inRange = None\<rparr>],
                   thrown = errs\<rparr>"
        by (simp add: stepPass_def updateSyncState_Some[OF k1])
      have "runSchedule cfg (replicate (Suc (length logs + Suc n)) (Resume 0)) ?s
              = \<lparr>store = d', running = [],
                 thrown = errs @ (case r of None \<Rightarrow> [] | Some e \<Rightarrow> [e])\<rparr>"
        by (simp only: replicate_Suc replicate_add runSchedule.simps runSchedule_append
              s1 s2 s3 run)
      with c show ?thesis by blast
    qed
  qed
qed

lemma pass_alone:
  assumes w: "1 \<le> MAX_LOG_BLOCK_RANGE cfg"
  shows "\<exists>n r d' rs. catchUpOnce cfg ch d = Some (r, d', rs)
            \<and> runSchedule cfg (Tick ch # replicate n (Resume 0)) (idle d)
               = \<lparr>store = d', running = [],
                  thrown = (case r of None \<Rightarrow> [] | Some e \<Rightarrow> [e])\<rparr>"
proof -
  from getOrCreateSyncState_cases[of cfg ch d]
  show ?thesis
  proof
    assume "\<exists>e. getOrCreateSyncState cfg ch d = Inl e"
    then obtain e where e: "getOrCreateSyncState cfg ch d = Inl e" by blast
    have "catchUpOnce cfg ch d = Some (Some (Rpc e), d, [])"
      using e by (simp add: catchUpOnce_def)
    moreover have "runSchedule cfg (Tick ch # replicate 0 (Resume 0)) (idle d)
               = \<lparr>store = d, running = [], thrown = [Rpc e]\<rparr>"
      using e by (simp add: startPass_def idle_def)
    ultimately show ?thesis by (metis option.simps(5))
  next
    assume "\<exists>d0 c. getOrCreateSyncState cfg ch d = Inr (d0, c) \<and> syncState d0 = Some c
          \<and> (\<forall>c0. syncState d = Some c0 \<longrightarrow> d0 = d \<and> c = c0)"
    then obtain d0 c where g: "getOrCreateSyncState cfg ch d = Inr (d0, c)"
      and c: "syncState d0 = Some c" by blast
    show ?thesis
    proof (cases "fst (withRetry cfg (getBlockNumber ch))")
      case (Inl e)
      have "catchUpOnce cfg ch d = Some (Some (Rpc e), d0, [])"
        using g Inl by (simp add: catchUpOnce_def)
      moreover have "runSchedule cfg (Tick ch # replicate 0 (Resume 0)) (idle d)
               = \<lparr>store = d0, running = [], thrown = [Rpc e]\<rparr>"
        using g Inl by (simp add: startPass_def idle_def)
      ultimately show ?thesis by (metis option.simps(5))
    next
      case (Inr latest)
      let ?safe = "max (latest - CONFIRMATIONS cfg) 0"
      show ?thesis
      proof (cases "c + 1 > ?safe")
        case True
        have "catchUpOnce cfg ch d = Some (None, d0, [])"
          using g Inr True by (simp add: catchUpOnce_def Let_def)
        moreover have "runSchedule cfg (Tick ch # replicate 0 (Resume 0)) (idle d)
               = \<lparr>store = d0, running = [], thrown = []\<rparr>"
          using g Inr True by (simp add: startPass_def idle_def Let_def)
        ultimately show ?thesis by (metis option.simps(4))
      next
        case False
        from loop_alone[OF w c, of ch ?safe "c + 1" "[]" "[]"]
        obtain n r d' rs where
          loop: "catchUpLoop cfg ch ?safe d0 (c + 1) [] = Some (r, d', rs)"
          and run: "runSchedule cfg (replicate n (Resume 0))
                 \<lparr>store = d0,
                  running = [\<lparr>p_chain = ch, p_safeLatest = ?safe, p_fromBlock = c + 1,
                              p_inRange = None\<rparr>],
                  thrown = []\<rparr>
               = \<lparr>store = d', running = [],
                  thrown = [] @ (case r of None \<Rightarrow> [] | Some e \<Rightarrow> [e])\<rparr>"
          by blast
        have "catchUpOnce cfg ch d = Some (r, d', rs)"
          using g Inr False loop by (auto simp: catchUpOnce_def Let_def)
        moreover have "perform cfg (Tick ch) (idle d)
                  = \<lparr>store = d0,
                  running = [\<lparr>p_chain = ch, p_safeLatest = ?safe, p_fromBlock = c + 1,
                              p_inRange = None\<rparr>],
                  thrown = []\<rparr>"
          using g Inr False by (simp add: startPass_def idle_def Let_def)
        then have "runSchedule cfg (Tick ch # replicate n (Resume 0)) (idle d)
               = \<lparr>store = d', running = [],
                  thrown = (case r of None \<Rightarrow> [] | Some e \<Rightarrow> [e])\<rparr>"
          using run by simp
        ultimately show ?thesis by blast
      qed
    qed
  qed
qed

text \<open>
  Claim C3, as amended. The cursor write compares nothing: on an existing row it stores
  whatever block it is given and raises no error. With a range width of at least 1, for
  any schedule of ticks and steps from a store whose cursor is \<open>c\<close>:
  \<^item> the cursor is there after every action and never falls below \<open>c\<close>, whether passes
    complete or abort and however they overlap (a pass writes only ends of ranges that lie
    above the cursor it read when it started);
  \<^item> if no tick falls while a pass is under way, the cursor never decreases from one action
    to the next;
  \<^item> in particular \<^verbatim>\<open>catchUpOnce\<close>, run on its own, returns and leaves the cursor at
    least where it was.
\<close>

theorem cursor_bounds_unguarded:
  assumes "1 \<le> MAX_LOG_BLOCK_RANGE cfg" and "syncState d = Some c"
  shows "(\<exists>ks. cursors cfg acts (idle d) = map Some ks
               \<and> (\<forall>k\<in>set ks. c \<le> k)
               \<and> (overlapFree cfg acts (idle d) \<longrightarrow> sorted (c # ks)))
       \<and> (\<exists>r d' rs c'. catchUpOnce cfg ch d = Some (r, d', rs)
               \<and> syncState d' = Some c' \<and> c \<le> c')
       \<and> updateSyncState d newBlock = Inr (d\<lparr>syncState := Some newBlock\<rparr>)"
proof -
  have s: "syncState (store (idle d)) = Some c" using assms(2) by (simp add: idle_def)
  have r: "\<forall>p\<in>set (running (idle d)). ahead c p" by (simp add: idle_def)
  have r': "running (idle d) = [] \<or> (\<exists>p. running (idle d) = [p] \<and> ahead c p)"
    by (simp add: idle_def)
  from cursors_general[OF assms(1) s order_refl r, where acts = acts] obtain ks where
    ks: "cursors cfg acts (idle d) = map Some ks" "\<forall>k\<in>set ks. c \<le> k" by auto
  have "overlapFree cfg acts (idle d) \<longrightarrow> sorted (c # ks)"
  proof
    assume "overlapFree cfg acts (idle d)"
    from cursors_alone[OF assms(1) s r' this] ks(1) show "sorted (c # ks)"
      by (auto simp: map_eq_conv inj_map_eq_map)
  qed
  with ks have "\<exists>ks. cursors cfg acts (idle d) = map Some ks
               \<and> (\<forall>k\<in>set ks. c \<le> k)
               \<and> (overlapFree cfg acts (idle d) \<longrightarrow> sorted (c # ks))"
    by blast
  moreover note catchUpOnce_returns[OF assms, of ch]
  moreover have "updateSyncState d newBlock = Inr (d\<lparr>syncState := Some newBlock\<rparr>)"
    using assms(2) by (simp add: updateSyncState_def)
  ultimately show ?thesis by (intro conjI)
qed

text \<open>The steps of the passes of the two example schedules.\<close>

lemma start_quiet:
  "syncState d = Some c \<Longrightarrow> c < 128 \<Longrightarrow>
   startPass exampleConfig quietChain d =
     (d, Running \<lparr>p_chain = quietChain, p_safeLatest = 128, p_fromBlock = c + 1,
                  p_inRange = None\<rparr>)"
  by (simp add: startPass_def getOrCreateSyncState_def withRetry_Resolves quietChain_def
        exampleConfig_def Let_def)

lemma start_quiet_done:
  "syncState d = Some 128 \<Longrightarrow> startPass exampleConfig quietChain d = (d, Returned)"
  by (simp add: startPass_def getOrCreateSyncState_def withRetry_Resolves quietChain_def
        exampleConfig_def Let_def)

lemma fetch_quiet:
  "p_chain p = quietChain \<Longrightarrow> p_inRange p = None \<Longrightarrow> p_fromBlock p \<le> p_safeLatest p \<Longrightarrow>
   stepPass exampleConfig p d =
     (d, Running (p\<lparr>p_inRange := Some (min (p_fromBlock p + 9) (p_safeLatest p), [])\<rparr>))"
  by (simp add: stepPass_def withRetry_Resolves quietChain_def exampleConfig_def Let_def)

lemma write_step:
  "p_inRange p = Some (t, []) \<Longrightarrow> syncState d = Some c \<Longrightarrow>
   stepPass cfg p d =
     (d\<lparr>syncState := Some t\<rparr>, Running (p\<lparr>p_fromBlock := t + 1, p_inRange := None\<rparr>))"
  by (simp add: stepPass_def updateSyncState_def)

lemma return_step:
  "p_inRange p = None \<Longrightarrow> p_safeLatest p < p_fromBlock p \<Longrightarrow> stepPass cfg p d = (d, Returned)"
  by (simp add: stepPass_def)

lemma withRetry_heldUp:
  "withRetry exampleConfig (heldUp f t)
     = (Inr [], if f = 100 then [1500, 3000, 6000, 12000] else [])"
proof (cases "f = 100")
  case False
  then show ?thesis by (simp add: withRetry_Resolves heldUp_def)
next
  case True
  have rl: "isRateLimitError rateLimited"
    by (simp add: isRateLimitError_def rateLimited_def codeTruthy_def)
  have "retryLoop exampleConfig (heldUp f t) 0 =
          apsnd ((@) (map (waitMs exampleConfig) [0..<4])) (retryLoop exampleConfig (heldUp f t) 4)"
    using rl True by (intro retryLoop_steps) (auto simp: heldUp_def exampleConfig_def)
  moreover have "retryLoop exampleConfig (heldUp f t) 4 = (Inr [], [])"
    by (rule retryLoop_Resolves) (simp add: heldUp_def)
  moreover have "map (waitMs exampleConfig) [0..<4] = [1500, 3000, 6000, 12000]"
    by (simp add: waitMs_def exampleConfig_def upt_rec)
  ultimately show ?thesis using True by (simp add: withRetry_def)
qed

lemma start_slow:
  "syncState d = Some c \<Longrightarrow> c < 128 \<Longrightarrow>
   startPass exampleConfig slowChain d =
     (d, Running \<lparr>p_chain = slowChain, p_safeLatest = 128, p_fromBlock = c + 1,
                  p_inRange = None\<rparr>)"
  by (simp add: startPass_def getOrCreateSyncState_def withRetry_Resolves slowChain_def
        exampleConfig_def Let_def)

lemma fetch_slow:
  "p_chain p = slowChain \<Longrightarrow> p_inRange p = None \<Longrightarrow> p_fromBlock p \<le> p_safeLatest p \<Longrightarrow>
   stepPass exampleConfig p d =
     (d, Running (p\<lparr>p_inRange := Some (min (p_fromBlock p + 9) (p_safeLatest p), [])\<rparr>))"
proof -
  have "MAX_LOG_BLOCK_RANGE exampleConfig = 10" by (simp add: exampleConfig_def)
  moreover have "queryFilter slowChain = heldUp" by (simp add: slowChain_def)
  ultimately show "p_chain p = slowChain \<Longrightarrow> p_inRange p = None \<Longrightarrow> p_fromBlock p \<le> p_safeLatest p \<Longrightarrow> ?thesis"
    by (simp add: stepPass_def withRetry_heldUp Let_def)
qed

lemma cursors_lateWrite:
  "cursors exampleConfig lateWrite (idle seededDb)
     = map Some [99, 99, 99, 109, 109, 119, 119, 128, 128, 128, 109]"
  by (simp add: lateWrite_def idle_def seededDb_def emptyDb_def start_slow fetch_slow
        write_step return_step)

lemma thrown_lateWrite:
  "thrown (runSchedule exampleConfig lateWrite (idle seededDb)) = []"
  by (simp add: lateWrite_def idle_def seededDb_def emptyDb_def start_slow fetch_slow
        write_step return_step)

lemma cursors_oneAtATime:
  "cursors exampleConfig oneAtATime (idle seededDb)
     = map Some [99, 99, 109, 109, 119, 119, 128, 128, 128]"
  by (simp add: oneAtATime_def idle_def seededDb_def emptyDb_def start_quiet fetch_quiet
        write_step return_step start_quiet_done)

lemma overlapFree_oneAtATime:
  "overlapFree exampleConfig oneAtATime (idle seededDb)"
  by (simp add: oneAtATime_def idle_def seededDb_def emptyDb_def start_quiet fetch_quiet
        write_step return_step start_quiet_done)

text \<open>
  Claim C3 as stated fails. On the slow chain the first fetch of a pass waits 1.5, 3, 6
  and 12 seconds, longer than the 15 seconds between two ticks, so the second tick finds
  the cursor still at 99. The pass of the first tick then goes through its three ranges
  and returns with the cursor at 128; after that the fetch of the second pass answers and
  the pass writes 109: the stored cursor decreases, and nothing is thrown. Likewise an
  advance to block 5 on a cursor at block 10 is applied without error.
\<close>

theorem late_pass_moves_cursor_back:
  "snd (withRetry exampleConfig (queryFilter slowChain 100 109)) = [1500, 3000, 6000, 12000]
   \<and> cursors exampleConfig lateWrite (idle seededDb)
     = [Some 99, Some 99, Some 99, Some 109, Some 109, Some 119, Some 119, Some 128,
        Some 128, Some 128, Some 109]
   \<and> thrown (runSchedule exampleConfig lateWrite (idle seededDb)) = []
   \<and> syncState cursorAt10 = Some 10
   \<and> updateSyncState cursorAt10 5 = Inr (cursorAt10\<lparr>syncState := Some 5\<rparr>)"
  using cursors_lateWrite thrown_lateWrite
  by (simp add: updateSyncState_def cursorAt10_def emptyDb_def slowChain_def withRetry_heldUp)

text \<open>A pass that runs to its end on the seeded store, followed by a second tick.\<close>

theorem cursor_bounds_unguarded_witness:
  "1 \<le> MAX_LOG_BLOCK_RANGE exampleConfig \<and> syncState seededDb = Some 99
   \<and> overlapFree exampleConfig oneAtATime (idle seededDb)
   \<and> cursors exampleConfig oneAtATime (idle seededDb)
        = [Some 99, Some 99, Some 109, Some 109, Some 119, Some 119, Some 128, Some 128,
           Some 128]
   \<and> sorted [99 :: int, 99, 99, 109, 109, 119, 119, 128, 128, 128]
   \<and> (\<exists>r d' rs c'. catchUpOnce exampleConfig quietChain seededDb = Some (r, d', rs)
          \<and> syncState d' = Some c' \<and> 99 \<le> c')
   \<and> updateSyncState seededDb 110 = Inr (seededDb\<lparr>syncState := Some 110\<rparr>)"
proof -
  have a: "1 \<le> MAX_LOG_BLOCK_RANGE exampleConfig" by (simp add: exampleConfig_def)
  have b: "syncState seededDb = Some 99" by (simp add: seededDb_def)
  note t = cursor_bounds_unguarded[OF a b, where acts = oneAtATime and ch = quietChain
             and newBlock = 110]
  from t overlapFree_oneAtATime
  obtain ks where ks: "cursors exampleConfig oneAtATime (idle seededDb) = map Some ks"
    "sorted (99 # ks)"
    by blast
  note u = t[THEN conjunct2]
  have "map Some ks = map Some [99, 99, 109, 109, 119, 119, 128, 128, 128]"
    using ks(1) cursors_oneAtATime by simp
  then have "ks = [99, 99, 109, 109, 119, 119, 128, 128, 128]"
    by (simp only: inj_map_eq_map[OF inj_Some])
  with ks(2) have "sorted [99 :: int, 99, 99, 109, 109, 119, 119, 128, 128, 128]" by simp
  then show ?thesis using a b u overlapFree_oneAtATime cursors_oneAtATime by simp
qed

lemma catchUpLoop_ranges:
  assumes w: "1 \<le> MAX_LOG_BLOCK_RANGE cfg"
    and fetch: "\<And>f t. \<exists>logs. fst (withRetry cfg (queryFilter ch f t)) = Inr logs"
  shows "syncState d = Some c \<Longrightarrow> fromBlock \<le> safeLatest \<Longrightarrow>
         \<exists>d'. catchUpLoop cfg ch safeLatest d fromBlock done =
                 Some (None, d', done @ specRanges (MAX_LOG_BLOCK_RANGE cfg) fromBlock safeLatest)
              \<and> syncState d' = Some safeLatest"
proof (induction "nat (safeLatest - fromBlock + 1)" arbitrary: d c fromBlock "done" rule: less_induct)
  case less
  let ?t = "min (fromBlock + MAX_LOG_BLOCK_RANGE cfg - 1) safeLatest"
  have t: "fromBlock \<le> ?t" "?t \<le> safeLatest" using less.prems w by auto
  obtain logs where logs: "fst (withRetry cfg (queryFilter ch fromBlock ?t)) = Inr logs"
    using fetch by blast
  obtain d1 where d1: "processLogs d logs = (None, d1)" "syncState d1 = syncState d"
    using processLogs_ok by blast
  let ?d2 = "d1\<lparr>syncState := Some ?t\<rparr>"
  have pr: "processRange cfg ch d fromBlock ?t = (None, ?d2)"
    using logs d1 less.prems(1) by (simp add: processRange_def updateSyncState_def)
  have sr: "specRanges (MAX_LOG_BLOCK_RANGE cfg) fromBlock safeLatest =
            (fromBlock, ?t) # specRanges (MAX_LOG_BLOCK_RANGE cfg) (?t + 1) safeLatest"
    using less.prems(2) w by (subst specRanges.simps) simp
  show ?case
  proof (cases "?t + 1 \<le> safeLatest")
    case True
    have m: "nat (safeLatest - (?t + 1) + 1) < nat (safeLatest - fromBlock + 1)"
      using t by linarith
    have "\<exists>d'. catchUpLoop cfg ch safeLatest ?d2 (?t + 1) (done @ [(fromBlock, ?t)]) =
                 Some (None, d', (done @ [(fromBlock, ?t)]) @
                         specRanges (MAX_LOG_BLOCK_RANGE cfg) (?t + 1) safeLatest)
              \<and> syncState d' = Some safeLatest"
      by (rule less.hyps[OF m _ True]) simp
    then show ?thesis using pr less.prems(2) sr
      by (subst catchUpLoop.simps) (simp add: Let_def)
  next
    case False
    then have e: "?t = safeLatest" using t by linarith
    have nil: "specRanges (MAX_LOG_BLOCK_RANGE cfg) (?t + 1) safeLatest = []"
      using False by (subst specRanges.simps) simp
    have stop: "catchUpLoop cfg ch safeLatest ?d2 (?t + 1) (done @ [(fromBlock, ?t)]) =
                 Some (None, ?d2, done @ [(fromBlock, ?t)])"
      using False by (subst catchUpLoop.simps) simp
    have "catchUpLoop cfg ch safeLatest d fromBlock done = Some (None, ?d2, done @ [(fromBlock, ?t)])"
      using pr less.prems(2) stop by (subst catchUpLoop.simps) (simp add: Let_def)
    moreover have "syncState ?d2 = Some safeLatest" using e by simp
    ultimately show ?thesis unfolding sr nil by blast
  qed
qed

lemma specRanges_cover:
  "1 \<le> w \<Longrightarrow>
   concat (map (\<lambda>(a, b). [a..b]) (specRanges w fromBlock safeTip)) = [fromBlock..safeTip]"
proof (induction w fromBlock safeTip rule: specRanges.induct)
  case (1 w fromBlock safeTip)
  show ?case
  proof (cases "fromBlock \<le> safeTip")
    case False
    then show ?thesis by (subst specRanges.simps) simp
  next
    case True
    let ?t = "min (fromBlock + w - 1) safeTip"
    have t: "fromBlock \<le> ?t" "?t \<le> safeTip" using True "1.prems" by auto
    have IH: "concat (map (\<lambda>(a, b). [a..b]) (specRanges w (?t + 1) safeTip)) = [?t + 1..safeTip]"
      using "1.IH" True "1.prems" by simp
    have "[fromBlock..safeTip] = [fromBlock..?t] @ [?t + 1..safeTip]"
      using t by (rule upto_split2)
    then show ?thesis using True "1.prems" IH by (subst specRanges.simps) simp
  qed
qed

lemma specRanges_width:
  "(a, b) \<in> set (specRanges w fromBlock safeTip) \<Longrightarrow> a \<le> b \<and> b - a + 1 \<le> w \<and> b \<le> safeTip"
proof (induction w fromBlock safeTip rule: specRanges.induct)
  case (1 w fromBlock safeTip)
  show ?case
  proof (cases "fromBlock \<le> safeTip \<and> 1 \<le> w")
    case False
    then show ?thesis using "1.prems" by (subst (asm) specRanges.simps) simp
  next
    case True
    from "1.prems" True
    have "(a, b) = (fromBlock, min (fromBlock + w - 1) safeTip)
          \<or> (a, b) \<in> set (specRanges w (min (fromBlock + w - 1) safeTip + 1) safeTip)"
      by (subst (asm) specRanges.simps) simp
    then show ?thesis using "1.IH" True by auto
  qed
qed


lemma withRetry_failsTwice: "fst (withRetry exampleConfig failsTwice) = Inr 130"
proof -
  have rl: "isRateLimitError rateLimited"
    by (simp add: isRateLimitError_def rateLimited_def codeTruthy_def)
  have "retryLoop exampleConfig failsTwice 0 =
          apsnd ((@) (map (waitMs exampleConfig) [0..<2])) (retryLoop exampleConfig failsTwice 2)"
    using rl by (intro retryLoop_steps) (auto simp: failsTwice_def exampleConfig_def)
  moreover have "retryLoop exampleConfig failsTwice 2 = (Inr 130, [])"
    by (rule retryLoop_Resolves) (simp add: failsTwice_def)
  ultimately show ?thesis by (simp add: withRetry_def)
qed

text \<open>
  Claim C4, as amended. Let \<open>c\<close> be the cursor that \<^verbatim>\<open>getOrCreateSyncState\<close> returns (the
  stored one, or when none is stored and a deployment block is configured, the deployment
  block minus one, at least 0), \<open>t\<close> the tip, and \<open>safeTip = max (t - CONFIRMATIONS) 0\<close>.
  If \<open>c + 1 > safeTip\<close> the pass is a no-op. Otherwise, for a width \<open>w\<close> of at least 1
  and fetches that succeed, the pass completes exactly the ranges
  \<open>[fromBlock, min (fromBlock + w - 1) safeTip]\<close> starting at \<open>fromBlock = c + 1\<close>, each
  following the previous one, and ends with the cursor at \<open>safeTip\<close>; the ranges cover the
  blocks \<open>c + 1, ..., safeTip\<close> in order, once each, and none is wider than \<open>w\<close>.
\<close>

theorem catchUpOnce_ranges:
  fixes cfg :: config and t :: int and safeTip :: int
  defines "safeTip \<equiv> max (t - CONFIRMATIONS cfg) 0"
  assumes "getOrCreateSyncState cfg ch d = Inr (d0, c)"
    and "fst (withRetry cfg (getBlockNumber ch)) = Inr t"
    and "1 \<le> MAX_LOG_BLOCK_RANGE cfg"
    and "\<forall>f t. \<exists>logs. fst (withRetry cfg (queryFilter ch f t)) = Inr logs"
  shows "(safeTip < c + 1 \<longrightarrow> catchUpOnce cfg ch d = Some (None, d0, []))
       \<and> (c + 1 \<le> safeTip \<longrightarrow>
            (\<exists>d'. catchUpOnce cfg ch d =
                     Some (None, d', specRanges (MAX_LOG_BLOCK_RANGE cfg) (c + 1) safeTip)
                 \<and> syncState d' = Some safeTip))
       \<and> concat (map (\<lambda>(a, b). [a..b]) (specRanges (MAX_LOG_BLOCK_RANGE cfg) (c + 1) safeTip))
           = [c + 1..safeTip]
       \<and> (\<forall>(a, b) \<in> set (specRanges (MAX_LOG_BLOCK_RANGE cfg) (c + 1) safeTip).
             a \<le> b \<and> b - a + 1 \<le> MAX_LOG_BLOCK_RANGE cfg)
       \<and> (\<forall>c0. syncState d = Some c0 \<longrightarrow> d0 = d \<and> c = c0)
       \<and> (syncState d = None \<and> 0 < DEPLOYMENT_BLOCK cfg \<longrightarrow>
            c = max (DEPLOYMENT_BLOCK cfg - 1) 0 \<and> d0 = d\<lparr>syncState := Some c\<rparr>)"
proof (intro conjI impI)
  from getOrCreateSyncState_cases[of cfg ch d] assms(2)
  have s0: "syncState d0 = Some c" and same: "\<forall>c0. syncState d = Some c0 \<longrightarrow> d0 = d \<and> c = c0"
    by auto
  show "\<forall>c0. syncState d = Some c0 \<longrightarrow> d0 = d \<and> c = c0" by (rule same)
  show "catchUpOnce cfg ch d = Some (None, d0, [])" if "safeTip < c + 1"
    using that assms(2,3) by (simp add: catchUpOnce_def safeTip_def Let_def)
  show "\<exists>d'. catchUpOnce cfg ch d =
                     Some (None, d', specRanges (MAX_LOG_BLOCK_RANGE cfg) (c + 1) safeTip)
                 \<and> syncState d' = Some safeTip" if le: "c + 1 \<le> safeTip"
  proof -
    have "\<exists>d'. catchUpLoop cfg ch safeTip d0 (c + 1) [] =
                 Some (None, d', [] @ specRanges (MAX_LOG_BLOCK_RANGE cfg) (c + 1) safeTip)
              \<and> syncState d' = Some safeTip"
      using assms(4,5) s0 le by (intro catchUpLoop_ranges) auto
    moreover have "catchUpOnce cfg ch d = catchUpLoop cfg ch safeTip d0 (c + 1) []"
      using le assms(2,3) by (auto simp: catchUpOnce_def safeTip_def Let_def)
    ultimately show ?thesis by simp
  qed
  show "concat (map (\<lambda>(a, b). [a..b]) (specRanges (MAX_LOG_BLOCK_RANGE cfg) (c + 1) safeTip))
           = [c + 1..safeTip]"
    using assms(4) by (rule specRanges_cover)
  show "\<forall>(a, b) \<in> set (specRanges (MAX_LOG_BLOCK_RANGE cfg) (c + 1) safeTip).
             a \<le> b \<and> b - a + 1 \<le> MAX_LOG_BLOCK_RANGE cfg"
    using specRanges_width by blast
  show "c = max (DEPLOYMENT_BLOCK cfg - 1) 0" if "syncState d = None \<and> 0 < DEPLOYMENT_BLOCK cfg"
    using that assms(2)
    by (cases "fst (withRetry cfg (getBlockNumberInit ch))")
       (auto simp: getOrCreateSyncState_def Let_def)
  show "d0 = d\<lparr>syncState := Some c\<rparr>" if "syncState d = None \<and> 0 < DEPLOYMENT_BLOCK cfg"
    using that assms(2)
    by (cases "fst (withRetry cfg (getBlockNumberInit ch))")
       (auto simp: getOrCreateSyncState_def Let_def)
qed

text \<open>
  The scenario: deployment block 100 (cursor seeded to 99), tip 130, 2 confirmations,
  width 10. The ranges are \<open>[100,109]\<close>, \<open>[110,119]\<close>, \<open>[120,128]\<close> and the cursor ends at
  128; a further pass from cursor 128 is a no-op.
\<close>

theorem catchUpOnce_ranges_witness:
  "passSummary (catchUpOnce exampleConfig exampleChain emptyDb) =
     Some (None, Some 128, [(100, 109), (110, 119), (120, 128)])
   \<and> catchUpOnce exampleConfig exampleChain (emptyDb\<lparr>syncState := Some 128\<rparr>) =
       Some (None, emptyDb\<lparr>syncState := Some 128\<rparr>, [])"
proof -
  have tip: "fst (withRetry exampleConfig (getBlockNumber exampleChain)) = Inr 130"
    using withRetry_failsTwice by (simp add: exampleChain_def)
  have w: "1 \<le> MAX_LOG_BLOCK_RANGE exampleConfig"
    by (simp add: exampleConfig_def)
  have fetch: "\<forall>f t. \<exists>logs. fst (withRetry exampleConfig (queryFilter exampleChain f t)) = Inr logs"
    by (simp add: withRetry_def exampleChain_def retryLoop_Resolves logsBetween_def)
  have init: "getOrCreateSyncState exampleConfig exampleChain emptyDb = Inr (seededDb, 99)"
    using withRetry_failsTwice
    by (simp add: getOrCreateSyncState_def exampleChain_def exampleConfig_def emptyDb_def seededDb_def)
  have init2: "getOrCreateSyncState exampleConfig exampleChain (emptyDb\<lparr>syncState := Some 128\<rparr>) =
                 Inr (emptyDb\<lparr>syncState := Some 128\<rparr>, 128)"
    using withRetry_failsTwice
    by (simp add: getOrCreateSyncState_def exampleChain_def exampleConfig_def emptyDb_def)
  have sr: "specRanges 10 100 128 = [(100, 109), (110, 119), (120, 128)]"
    by (simp add: specRanges.simps)
  have le: "99 + 1 \<le> max (130 - CONFIRMATIONS exampleConfig) 0"
    by (simp add: exampleConfig_def)
  from catchUpOnce_ranges[OF init tip w fetch, THEN conjunct2, THEN conjunct1, THEN mp, OF le]
  have a: "passSummary (catchUpOnce exampleConfig exampleChain emptyDb) =
     Some (None, Some 128, [(100, 109), (110, 119), (120, 128)])"
    using sr by (auto simp: exampleConfig_def passSummary_def)
  have gt: "max (130 - CONFIRMATIONS exampleConfig) 0 < 128 + 1"
    by (simp add: exampleConfig_def)
  from catchUpOnce_ranges[OF init2 tip w fetch, THEN conjunct1, THEN mp, OF gt]
  have b: "catchUpOnce exampleConfig exampleChain (emptyDb\<lparr>syncState := Some 128\<rparr>) =
       Some (None, emptyDb\<lparr>syncState := Some 128\<rparr>, [])" .
  show ?thesis using a b by simp
qed

text \<open>
  Claim C4 as stated fails in its scenario: the ranges of the pass are not
  \<open>[101,110]\<close>, \<open>[111,120]\<close>, \<open>[121,128]\<close>: the first range starts at the deployment block.
\<close>

theorem scenario_ranges_start_at_deployment_block:
  "passSummary (catchUpOnce exampleConfig exampleChain emptyDb) \<noteq>
     Some (None, Some 128, [(101, 110), (111, 120), (121, 128)])"
proof -
  have tip: "fst (withRetry exampleConfig (getBlockNumber exampleChain)) = Inr 130"
    using withRetry_failsTwice by (simp add: exampleChain_def)
  have w: "1 \<le> MAX_LOG_BLOCK_RANGE exampleConfig"
    by (simp add: exampleConfig_def)
  have fetch: "\<And>f t. \<exists>logs. fst (withRetry exampleConfig (queryFilter exampleChain f t)) = Inr logs"
    by (simp add: withRetry_def exampleChain_def retryLoop_Resolves logsBetween_def)
  have init: "getOrCreateSyncState exampleConfig exampleChain emptyDb = Inr (seededDb, 99)"
    using withRetry_failsTwice
    by (simp add: getOrCreateSyncState_def exampleChain_def exampleConfig_def emptyDb_def seededDb_def)
  have sr: "specRanges 10 100 128 = [(100, 109), (110, 119), (120, 128)]"
    by (simp add: specRanges.simps)
  have "\<exists>d'. catchUpLoop exampleConfig exampleChain 128 seededDb 100 [] =
                 Some (None, d', [] @ specRanges (MAX_LOG_BLOCK_RANGE exampleConfig) 100 128)
              \<and> syncState d' = Some 128"
    using w fetch by (rule catchUpLoop_ranges) (simp_all add: seededDb_def)
  moreover have "catchUpOnce exampleConfig exampleChain emptyDb =
                 catchUpLoop exampleConfig exampleChain 128 seededDb 100 []"
    using init tip by (simp add: catchUpOnce_def Let_def exampleConfig_def)
  ultimately show ?thesis using sr by (auto simp: passSummary_def exampleConfig_def)
qed

section \<open>Verification: precision of the vote counts\<close>

lemma bitlen_num: "bitlen 9007199254740993 = 54"
  by (simp add: bitlen.simps)

lemma round_big: "toDouble 9007199254740993 = Num 9007199254740992"
  by (simp add: toDouble_def roundToDouble_def roundHalfEven_def bitlen_num Let_def)

lemma decode_bigVoteLog:
  "decodeLog bigVoteLog =
     (''VoteCast'',
      \<lparr>named = Map.empty,
       positional = [JString (HexStr ''4B20993Bc481177ec7E8f571ceCaE8A9e22C02db''),
                     JString (DecStr 0), JString (DecStr 9007199254740993)]\<rparr>)"
  by (simp add: decodeLog_def bigVoteLog_def nameOrUnknown_def emptyArgs_def setIndex_def)

lemma bitlen_2p53: "bitlen 9007199254740992 = 54"
  by (simp add: bitlen.simps)

lemma round_2p53: "toDouble 9007199254740992 = Num 9007199254740992"
  by (simp add: toDouble_def roundToDouble_def roundHalfEven_def bitlen_2p53 Let_def)

text \<open>The weight of a vote as the decoder hands it on, by position and by name.\<close>

lemma getArg_positional_weight:
  "getArg (snd (decodePayload (EventLog (Some n)
       (Some [(Index 0, v0), (Index 1, v1), (Index 2, EBigint y)])))) ''weight'' 2
     = JString (DecStr y)"
  by (simp add: getArg_def emptyArgs_def setIndex_def Let_def)

lemma getArg_named_weight:
  "getArg (snd (decodePayload (RawLog (Parsed n (es @ [(Name ''weight'', EBigint y)])))))
     ''weight'' 2 = JString (DecStr y)"
proof -
  have "\<And>a. named (collectArgs (es @ [(Name ''weight'', EBigint y)]) a) ''weight''
          = Some (JString (DecStr y))"
  proof (induction es)
    case Nil
    then show ?case by simp
  next
    case (Cons e es)
    then show ?case by (cases e; cases "fst e") auto
  qed
  then show ?thesis by (simp add: getArg_def)
qed

text \<open>
  Claim C5, as amended. \<^verbatim>\<open>decodeLog\<close> keeps a wide integer as its decimal string,
  whatever its size. The projection reads the weight and the stored count with
  \<^verbatim>\<open>Number\<close> and stores their sum as a JavaScript number: for a newly recorded
  \<^verbatim>\<open>VoteCast\<close> entry with weight \<open>x\<close> for a proposal whose stored count is \<open>c\<close> (0 if it
  has no row yet), with \<open>c + x < 2^53\<close>, the count stored is exactly \<open>c + x\<close>.
\<close>

theorem voteCount_exact_below_2p53:
  assumes "logKey ev \<notin> eventKeys d"
    and "decodeLog ev = (''VoteCast'', a)"
    and "getArg a ''voter'' 0 = JString s"
    and "getArg a ''proposalId'' 1 = JString (DecStr p)" and "p < 2 ^ 53"
    and "getArg a ''weight'' 2 = JString (DecStr x)"
    and "(case map_of (proposalTable d) p of Some r \<Rightarrow> voteCount r | None \<Rightarrow> Num 0) = Num c"
    and "c + x < 2 ^ 53"
  shows "(\<exists>d'. processEntry d ev = Inr d'
            \<and> map_of (proposalTable d') p =
                Some (case map_of (proposalTable d) p of
                        None \<Rightarrow> \<lparr>name = TemplateName p, voteCount = Num (c + x)\<rparr>
                      | Some r \<Rightarrow> r\<lparr>voteCount := Num (c + x)\<rparr>))
       \<and> getArg (snd (decodePayload (EventLog (Some n)
             (Some [(Index 0, v0), (Index 1, v1), (Index 2, EBigint y)])))) ''weight'' 2
           = JString (DecStr y)
       \<and> getArg (snd (decodePayload (RawLog (Parsed n (es @ [(Name ''weight'', EBigint y)])))))
             ''weight'' 2 = JString (DecStr y)"
proof (intro conjI)
  let ?d1 = "d\<lparr>onChainEvents := onChainEvents d @ [rawEventOf ev ''VoteCast'' a]\<rparr>"
  have pe: "processEntry d ev =
              Inr (applyReadModelProjection ?d1 ''VoteCast'' a (ev_blockNumber ev)
                     (ev_transactionHash ev))"
    using assms(1,2) by (simp add: processEntry_new)
  have pid: "Number (getArg a ''proposalId'' 1) = Num p"
    using assms(4,5) by (simp add: Number_small)
  have x: "x < 2 ^ 53" using assms(8) by simp
  have w: "Number (getArg a ''weight'' 2) = Num x"
    using assms(6) x by (simp add: Number_small)
  have cur: "(case map_of (proposalTable ?d1) p of Some r \<Rightarrow> voteCount r | None \<Rightarrow> Num 0) = Num c"
    using assms(7) by simp
  have sum: "js_add (Num c) (Num x) = Num (c + x)"
    using assms(8) by (simp add: toDouble_exact)
  have "map_of (proposalTable (applyReadModelProjection ?d1 ''VoteCast'' a (ev_blockNumber ev)
                     (ev_transactionHash ev))) p =
                Some (case map_of (proposalTable d) p of
                        None \<Rightarrow> \<lparr>name = TemplateName p, voteCount = Num (c + x)\<rparr>
                      | Some r \<Rightarrow> r\<lparr>voteCount := Num (c + x)\<rparr>)"
    using cur sum
    by (simp add: voteCast_effect[OF assms(3) pid] w Let_def isFinite_def update_conv'
          split: option.splits)
  with pe show "\<exists>d'. processEntry d ev = Inr d'
            \<and> map_of (proposalTable d') p =
                Some (case map_of (proposalTable d) p of
                        None \<Rightarrow> \<lparr>name = TemplateName p, voteCount = Num (c + x)\<rparr>
                      | Some r \<Rightarrow> r\<lparr>voteCount := Num (c + x)\<rparr>)"
    by simp
  show "getArg (snd (decodePayload (EventLog (Some n)
             (Some [(Index 0, v0), (Index 1, v1), (Index 2, EBigint y)])))) ''weight'' 2
           = JString (DecStr y)"
    by (rule getArg_positional_weight)
  show "getArg (snd (decodePayload (RawLog (Parsed n (es @ [(Name ''weight'', EBigint y)])))))
             ''weight'' 2 = JString (DecStr y)"
    by (rule getArg_named_weight)
qed

text \<open>The vote of the example, of weight 1, for a proposal whose count is 41.\<close>

theorem voteCount_exact_below_2p53_witness:
  "logKey voteCastLog \<notin> eventKeys countAt41
   \<and> decodeLog voteCastLog =
       (''VoteCast'',
        \<lparr>named = [''voter'' \<mapsto> JString (HexStr ''Ab8483F64d9C6d1EcF9b849Ae677dD3315835cb2''),
                  ''proposalId'' \<mapsto> JString (DecStr 2), ''weight'' \<mapsto> JString (DecStr 1)],
         positional = [JString (HexStr ''Ab8483F64d9C6d1EcF9b849Ae677dD3315835cb2''),
                       JString (DecStr 2), JString (DecStr 1)]\<rparr>)
   \<and> map_of (proposalTable countAt41) 2 = Some \<lparr>name = TemplateName 2, voteCount = Num 41\<rparr>
   \<and> (41 :: nat) + 1 < 2 ^ 53
   \<and> (\<exists>d'. processEntry countAt41 voteCastLog = Inr d'
          \<and> map_of (proposalTable d') 2 = Some \<lparr>name = TemplateName 2, voteCount = Num 42\<rparr>)"
proof -
  let ?a = "snd (decodeLog voteCastLog)"
  have k: "logKey voteCastLog \<notin> eventKeys countAt41"
    by (simp add: eventKeys_def countAt41_def emptyDb_def)
  have dl: "decodeLog voteCastLog = (''VoteCast'', ?a)"
    by (simp add: decode_voteCastLog)
  have a1: "getArg ?a ''voter'' 0 = JString (HexStr ''Ab8483F64d9C6d1EcF9b849Ae677dD3315835cb2'')"
    and a2: "getArg ?a ''proposalId'' 1 = JString (DecStr 2)"
    and a3: "getArg ?a ''weight'' 2 = JString (DecStr 1)"
    by (simp_all add: decode_voteCastLog getArg_def)
  have p: "(2 :: nat) < 2 ^ 53" by simp
  have m: "map_of (proposalTable countAt41) 2 = Some \<lparr>name = TemplateName 2, voteCount = Num 41\<rparr>"
    by (simp add: countAt41_def emptyDb_def)
  have cur: "(case map_of (proposalTable countAt41) 2 of Some r \<Rightarrow> voteCount r | None \<Rightarrow> Num 0)
               = Num 41"
    by (simp add: m)
  have s: "(41 :: nat) + 1 < 2 ^ 53" by simp
  from voteCount_exact_below_2p53[OF k dl a1 a2 p a3 cur s, THEN conjunct1]
  have "\<exists>d'. processEntry countAt41 voteCastLog = Inr d'
          \<and> map_of (proposalTable d') 2 = Some \<lparr>name = TemplateName 2, voteCount = Num 42\<rparr>"
    by (simp add: m)
  then show ?thesis using k m decode_voteCastLog by simp
qed

text \<open>
  Claim C5 as stated fails beyond \<open>2^53\<close>. \<^verbatim>\<open>decodeLog\<close> keeps the weight \<open>2^53 + 1\<close> of
  the vote as the decimal string \<^verbatim>\<open>9007199254740993\<close>, but the projection converts it
  with \<^verbatim>\<open>Number\<close>, which gives \<open>2^53\<close>: on the empty store the count of proposal 0
  becomes \<^verbatim>\<open>9007199254740992\<close>, not the exact sum \<open>0 + 9007199254740993\<close>. Likewise a vote
  of weight 1 for a proposal whose stored count is \<^verbatim>\<open>9007199254740992\<close> leaves the count
  as it is, where the exact sum is \<^verbatim>\<open>9007199254740993\<close>.
\<close>

theorem voteCount_loses_precision:
  "getArg (snd (decodeLog bigVoteLog)) ''weight'' 2 = JString (DecStr 9007199254740993)
   \<and> Number (getArg (snd (decodeLog bigVoteLog)) ''weight'' 2) = Num 9007199254740992
   \<and> map_of (proposalTable
        (applyReadModelProjection emptyDb ''VoteCast'' (snd (decodeLog bigVoteLog)) 124 ''0xaa06'')) 0
       = Some \<lparr>name = TemplateName 0, voteCount = Num 9007199254740992\<rparr>
   \<and> Num 9007199254740992 \<noteq> Num (0 + 9007199254740993)
   \<and> getArg (snd (decodeLog voteCastLog)) ''weight'' 2 = JString (DecStr 1)
   \<and> map_of (proposalTable countAt2p53) 2
       = Some \<lparr>name = TemplateName 2, voteCount = Num 9007199254740992\<rparr>
   \<and> map_of (proposalTable
        (applyReadModelProjection countAt2p53 ''VoteCast'' (snd (decodeLog voteCastLog)) 123 ''0xaa04'')) 2
       = Some \<lparr>name = TemplateName 2, voteCount = Num 9007199254740992\<rparr>
   \<and> Num 9007199254740992 \<noteq> Num (9007199254740992 + 1)"
proof -
  have a1: "getArg (snd (decodeLog bigVoteLog)) ''voter'' 0 =
             JString (HexStr ''4B20993Bc481177ec7E8f571ceCaE8A9e22C02db'')"
    and a2: "Number (getArg (snd (decodeLog bigVoteLog)) ''proposalId'' 1) = Num 0"
    and a3: "getArg (snd (decodeLog bigVoteLog)) ''weight'' 2 = JString (DecStr 9007199254740993)"
    by (simp_all add: decode_bigVoteLog getArg_def Number_small)
  have w: "Number (getArg (snd (decodeLog bigVoteLog)) ''weight'' 2) = Num 9007199254740992"
    by (simp add: a3 Number_def round_big)
  have c1: "map_of (proposalTable
        (applyReadModelProjection emptyDb ''VoteCast'' (snd (decodeLog bigVoteLog)) 124 ''0xaa06'')) 0
       = Some \<lparr>name = TemplateName 0, voteCount = Num 9007199254740992\<rparr>"
    by (simp add: voteCast_effect[OF a1 a2] w round_2p53 Let_def isFinite_def emptyDb_def)
  have b1: "getArg (snd (decodeLog voteCastLog)) ''voter'' 0
              = JString (HexStr ''Ab8483F64d9C6d1EcF9b849Ae677dD3315835cb2'')"
    and b2: "Number (getArg (snd (decodeLog voteCastLog)) ''proposalId'' 1) = Num 2"
    and b3: "getArg (snd (decodeLog voteCastLog)) ''weight'' 2 = JString (DecStr 1)"
    by (simp_all add: decode_voteCastLog getArg_def Number_small)
  have w2: "Number (getArg (snd (decodeLog voteCastLog)) ''weight'' 2) = Num 1"
    by (simp add: b3 Number_small)
  have c0: "map_of (proposalTable countAt2p53) 2
       = Some \<lparr>name = TemplateName 2, voteCount = Num 9007199254740992\<rparr>"
    by (simp add: countAt2p53_def emptyDb_def)
  have c2: "map_of (proposalTable
        (applyReadModelProjection countAt2p53 ''VoteCast'' (snd (decodeLog voteCastLog)) 123 ''0xaa04'')) 2
       = Some \<lparr>name = TemplateName 2, voteCount = Num 9007199254740992\<rparr>"
    by (simp add: voteCast_effect[OF b1 b2] w2 round_big Let_def isFinite_def countAt2p53_def emptyDb_def)
  show ?thesis using a3 w c1 b3 c0 c2 by simp
qed


section \<open>Verification: what readers can see during a range\<close>

lemma processLogsStates_props:
  "length (processLogsStates d logs) = length logs
   \<and> (\<forall>s \<in> set (processLogsStates d logs). syncState s = syncState d)
   \<and> snd (processLogs d logs) = last (d # processLogsStates d logs)"
proof (induction logs arbitrary: d)
  case Nil
  show ?case by simp
next
  case (Cons ev logs)
  obtain d1 where d1: "processEntry d ev = Inr d1" "syncState d1 = syncState d"
    using processEntry_Inr by blast
  from Cons.IH[of d1] d1 show ?case by auto
qed

text \<open>
  Claim C8, as amended. Let the cursor row exist. When the logs of a range have been
  fetched, the range is processed without error, and every entry is recorded (and
  projected if new) before the cursor is written: the stores visible during the range are
  the store after each entry, all with the old cursor, followed by the store in which the
  cursor is the end of the range, and that last store holds the key of every fetched
  entry. When the fetch fails, the range writes nothing and the cursor stays. Nothing
  hides the stores before the last one from readers.
\<close>

theorem cursor_commit_after_entries:
  assumes "syncState d = Some c"
  shows "(fst (withRetry cfg (queryFilter ch fromBlock toBlock)) = Inr logs \<longrightarrow>
            processRange cfg ch d fromBlock toBlock =
              (None, (snd (processLogs d logs))\<lparr>syncState := Some toBlock\<rparr>)
          \<and> logKey ` set logs \<subseteq> eventKeys (snd (processLogs d logs))
          \<and> rangeStates cfg ch d fromBlock toBlock =
              processLogsStates d logs @
                [(snd (processLogs d logs))\<lparr>syncState := Some toBlock\<rparr>]
          \<and> length (processLogsStates d logs) = length logs
          \<and> snd (processLogs d logs) = last (d # processLogsStates d logs)
          \<and> (\<forall>s \<in> set (processLogsStates d logs). syncState s = Some c))
       \<and> (fst (withRetry cfg (queryFilter ch fromBlock toBlock)) = Inl e \<longrightarrow>
            processRange cfg ch d fromBlock toBlock = (Some (Rpc e), d)
          \<and> rangeStates cfg ch d fromBlock toBlock = [])"
proof (intro conjI impI)
  assume f: "fst (withRetry cfg (queryFilter ch fromBlock toBlock)) = Inr logs"
  obtain d1 where d1: "processLogs d logs = (None, d1)"
     "eventKeys d1 = eventKeys d \<union> logKey ` set logs" "syncState d1 = syncState d"
    using processLogs_ok by blast
  show "processRange cfg ch d fromBlock toBlock =
          (None, (snd (processLogs d logs))\<lparr>syncState := Some toBlock\<rparr>)"
    using f assms d1 by (simp add: processRange_def updateSyncState_def)
  show "rangeStates cfg ch d fromBlock toBlock =
          processLogsStates d logs @ [(snd (processLogs d logs))\<lparr>syncState := Some toBlock\<rparr>]"
    using f assms d1 by (simp add: rangeStates_def updateSyncState_def)
  show "logKey ` set logs \<subseteq> eventKeys (snd (processLogs d logs))"
    using d1 by simp
  show "length (processLogsStates d logs) = length logs"
    using processLogsStates_props[of d logs] by simp
  show "snd (processLogs d logs) = last (d # processLogsStates d logs)"
    using processLogsStates_props[of d logs] by simp
  show "\<forall>s \<in> set (processLogsStates d logs). syncState s = Some c"
    using processLogsStates_props[of d logs] assms by simp
next
  assume f: "fst (withRetry cfg (queryFilter ch fromBlock toBlock)) = Inl e"
  show "processRange cfg ch d fromBlock toBlock = (Some (Rpc e), d)"
    using f by (simp add: processRange_def)
  show "rangeStates cfg ch d fromBlock toBlock = []"
    using f by (simp add: rangeStates_def)
qed

lemma processLogsStates_first_range:
  "processLogsStates seededDb [stageChangedLog, voterRegisteredLog, unparsedLog] ! 1 =
     afterFirstRange\<lparr>syncState := Some 99, onChainEvents := butlast (onChainEvents afterFirstRange),
        ballotSnapshot := Some \<lparr>lastIndexedBlock = 107, stage = 1, totalVoters = 1, totalVotes = 0,
              winnerComputed = False, winningProposalId = 0\<rparr>\<rparr>"
  by (simp add: seededDb_def emptyDb_def afterFirstRange_def processEntry_def createEvent_def
        eventKey_def rawEventOf_def decode_stageChangedLog decode_voterRegisteredLog
        decode_unparsedLog project_defs defaultSnapshot_def Let_def getArg_def Number_small
        lowerChar_def emptyArgs_def)
     (simp add: stageChangedLog_def voterRegisteredLog_def unparsedLog_def)?

text \<open>
  Claim C8 as stated fails: while the range 100 to 109 of the example is processed, after
  its second entry the cursor is still 99, yet the raw event table has two rows and the
  stats query answers one voter and stage 1 (it answered no voter before the range).
\<close>

theorem effects_visible_before_cursor_commit:
  "syncState (rangeStates exampleConfig exampleChain seededDb 100 109 ! 1) = Some 99
   \<and> length (onChainEvents (rangeStates exampleConfig exampleChain seededDb 100 109 ! 1)) = 2
   \<and> st_totalVoters (getStats (rangeStates exampleConfig exampleChain seededDb 100 109 ! 1)) = 1
   \<and> st_stage (getStats (rangeStates exampleConfig exampleChain seededDb 100 109 ! 1)) = 1
   \<and> st_totalVoters (getStats seededDb) = 0"
proof -
  have "rangeStates exampleConfig exampleChain seededDb 100 109 ! 1 =
        processLogsStates seededDb [stageChangedLog, voterRegisteredLog, unparsedLog] ! 1"
    by (simp only: rangeStates_def fetch_first_range sum.case)
       (simp add: nth_append processLogsStates_props del: processLogsStates.simps)
  then have e: "rangeStates exampleConfig exampleChain seededDb 100 109 ! 1 =
     afterFirstRange\<lparr>syncState := Some 99, onChainEvents := butlast (onChainEvents afterFirstRange),
        ballotSnapshot := Some \<lparr>lastIndexedBlock = 107, stage = 1, totalVoters = 1, totalVotes = 0,
              winnerComputed = False, winningProposalId = 0\<rparr>\<rparr>"
    by (simp only: processLogsStates_first_range)
  show ?thesis
    unfolding e by (simp add: getStats_def afterFirstRange_def seededDb_def emptyDb_def)
qed


text \<open>The first range of the example: three visible stores with the old cursor, then the commit.\<close>

theorem cursor_commit_after_entries_witness:
  "rangeStates exampleConfig exampleChain seededDb 100 109 =
     processLogsStates seededDb [stageChangedLog, voterRegisteredLog, unparsedLog] @ [afterFirstRange]
   \<and> length (processLogsStates seededDb [stageChangedLog, voterRegisteredLog, unparsedLog]) = 3"
proof -
  have c: "syncState seededDb = Some 99" by (simp add: seededDb_def)
  have r: "(snd (processLogs seededDb [stageChangedLog, voterRegisteredLog, unparsedLog]))
             \<lparr>syncState := Some 109\<rparr> = afterFirstRange"
    by (simp only: processLogs_first_range snd_conv) (simp add: afterFirstRange_def)
  note t = cursor_commit_after_entries[OF c, THEN conjunct1, THEN mp, OF fetch_first_range]
  from t[THEN conjunct2, THEN conjunct2, THEN conjunct1]
       t[THEN conjunct2, THEN conjunct2, THEN conjunct2, THEN conjunct1]
  show ?thesis by (simp only: r) simp
qed

section \<open>Verification: the stats query\<close>

text \<open>
  The model of binary64 rounding is sound: \<open>roundRatio a b\<close> differs from \<open>a / b\<close> by at
  most the fraction \<open>2^-53\<close> of \<open>a / b\<close>.
\<close>

lemma bitlen_bounds: "0 < n \<Longrightarrow> 2 ^ (bitlen n - 1) \<le> n \<and> n < 2 ^ bitlen n"
proof (induction n rule: bitlen.induct)
  case (1 n)
  show ?case
  proof (cases "n div 2 = 0")
    case True
    with "1.prems" have "n = 1" by presburger
    then show ?thesis by (simp add: bitlen.simps)
  next
    case False
    then have pos: "0 < n div 2" by simp
    from "1.IH" "1.prems" pos
    have IH: "2 ^ (bitlen (n div 2) - 1) \<le> n div 2" "n div 2 < 2 ^ bitlen (n div 2)"
      by auto
    have bl: "bitlen n = Suc (bitlen (n div 2))"
      using "1.prems" by (subst bitlen.simps) simp
    have bp: "0 < bitlen (n div 2)"
      using pos by (subst bitlen.simps) simp
    have "(2::nat) ^ bitlen (n div 2) = 2 * 2 ^ (bitlen (n div 2) - 1)"
      using bp by (cases "bitlen (n div 2)") simp_all
    then have "(2::nat) ^ bitlen (n div 2) \<le> 2 * (n div 2)"
      using IH(1) by simp
    then have lo: "(2::nat) ^ bitlen (n div 2) \<le> n" by presburger
    have "n < 2 * (n div 2 + 1)" by presburger
    also have "\<dots> \<le> 2 * 2 ^ bitlen (n div 2)" using IH(2) by simp
    finally have hi: "n < 2 * 2 ^ bitlen (n div 2)" .
    show ?thesis using lo hi by (simp add: bl)
  qed
qed

lemma scaled_pos: "0 < b \<Longrightarrow> scaled a b e = (n, d) \<Longrightarrow> 0 < d"
  by (auto simp: scaled_def split: if_splits)

lemma scaled_succ:
  assumes "scaled a b e = (n0, d0)" and "scaled a b (e + 1) = (n, d)"
  shows "n0 * d = 2 * n * d0"
proof (cases "0 \<le> e")
  case True
  then have "nat (e + 1) = Suc (nat e)" by simp
  then show ?thesis using assms True by (auto simp: scaled_def)
next
  case False
  then have "nat (- e) = Suc (nat (- (e + 1)))" by simp
  then show ?thesis using assms False by (auto simp: scaled_def split: if_splits)
qed


lemma scaled_first:
  assumes "0 < a" and "0 < b"
    and "scaled a b (int (bitlen a) - int (bitlen b) - 53) = (n0, d0)"
  shows "2 ^ 52 * d0 \<le> n0"
proof -
  let ?la = "bitlen a" and ?lb = "bitlen b"
  from bitlen_bounds[OF assms(1)] have a: "2 ^ (?la - 1) \<le> a" by simp
  from bitlen_bounds[OF assms(2)] have b: "b < 2 ^ ?lb" by simp
  have la: "0 < ?la" using assms(1) by (subst bitlen.simps) simp
  show ?thesis
  proof (cases "0 \<le> int ?la - int ?lb - 53")
    case True
    define k where "k = nat (int ?la - int ?lb - 53)"
    have k: "?la - 1 = 52 + ?lb + k" using True la by (simp add: k_def)
    have nd: "n0 = a" "d0 = b * 2 ^ k" using assms(3) True by (auto simp: scaled_def k_def)
    have "2 ^ 52 * d0 = 2 ^ 52 * b * 2 ^ k" by (simp add: nd)
    also have "\<dots> \<le> 2 ^ 52 * 2 ^ ?lb * 2 ^ k" using b by simp
    also have "\<dots> = 2 ^ (?la - 1)" by (simp only: k power_add)
    also have "\<dots> \<le> n0" using a nd by simp
    finally show ?thesis .
  next
    case False
    define k where "k = nat (- (int ?la - int ?lb - 53))"
    have k: "?la - 1 + k = 52 + ?lb" using False la by (simp add: k_def)
    have nd: "n0 = a * 2 ^ k" "d0 = b" using assms(3) False by (auto simp: scaled_def k_def)
    have "2 ^ 52 * d0 \<le> 2 ^ 52 * 2 ^ ?lb" using b nd by simp
    also have "\<dots> = 2 ^ (?la - 1) * 2 ^ k" by (simp only: power_add[symmetric] k)
    also have "\<dots> \<le> n0" using a nd by simp
    finally show ?thesis .
  qed
qed

lemma roundHalfEven_error:
  assumes "0 < d"
  shows "\<bar>(of_nat (roundHalfEven n d) :: rat) - of_nat n / of_nat d\<bar> \<le> 1 / 2"
proof -
  let ?q = "n div d" and ?r = "n mod d"
  have n: "(of_nat n :: rat) = of_nat ?q * of_nat d + of_nat ?r"
    by (metis div_mult_mod_eq of_nat_add of_nat_mult)
  have dpos: "(0::rat) < of_nat d" using assms by simp
  have frac: "(of_nat n :: rat) / of_nat d = of_nat ?q + of_nat ?r / of_nat d"
    using dpos by (simp add: n add_divide_distrib)
  have rlt: "(of_nat ?r :: rat) < of_nat d" using assms by simp
  show ?thesis
  proof (cases "2 * ?r < d")
    case True
    then have "(2 * of_nat ?r :: rat) < of_nat d"
      by (metis of_nat_less_iff of_nat_mult of_nat_numeral)
    then have "(of_nat ?r :: rat) / of_nat d < 1 / 2" using dpos by (simp add: field_simps)
    moreover have "(0::rat) \<le> of_nat ?r / of_nat d" by simp
    ultimately show ?thesis using True by (simp add: roundHalfEven_def Let_def frac)
  next
    case False
    show ?thesis
    proof (cases "d < 2 * ?r")
      case True
      then have "(of_nat d :: rat) < 2 * of_nat ?r"
        by (metis of_nat_less_iff of_nat_mult of_nat_numeral)
      then have "1 / 2 < (of_nat ?r :: rat) / of_nat d" using dpos by (simp add: field_simps)
      moreover have "(of_nat ?r :: rat) / of_nat d < 1" using rlt dpos by simp
      ultimately show ?thesis using True False by (simp add: roundHalfEven_def Let_def frac)
    next
      case F2: False
      with False have "d = 2 * ?r" by simp
      then have "(of_nat d :: rat) = 2 * of_nat ?r"
        by (metis of_nat_mult of_nat_numeral)
      then have h: "(of_nat ?r :: rat) / of_nat d = 1 / 2" using dpos by (simp add: field_simps)
      show ?thesis using False F2 by (simp add: roundHalfEven_def Let_def frac h)
    qed
  qed
qed


lemma roundRatio_error:
  assumes "0 < a" and "0 < b"
  shows "\<bar>roundRatio a b - of_nat a / of_nat b\<bar> \<le> (of_nat a / of_nat b) / 2 ^ 53"
proof -
  define e0 where "e0 = int (bitlen a) - int (bitlen b) - 53"
  obtain n0 d0 where s0: "scaled a b e0 = (n0, d0)" by (cases "scaled a b e0")
  define e where "e = (if 2 ^ 53 \<le> n0 div d0 then e0 + 1 else e0)"
  obtain n d where s: "scaled a b e = (n, d)" by (cases "scaled a b e")
  define m where "m = roundHalfEven n d"
  have d0: "0 < d0" using scaled_pos[OF assms(2) s0] .
  have d: "0 < d" using scaled_pos[OF assms(2) s] .
  have first: "2 ^ 52 * d0 \<le> n0"
    using scaled_first[OF assms] s0 by (simp add: e0_def)
  have K: "2 ^ 52 * d \<le> n"
  proof (cases "2 ^ 53 \<le> n0 div d0")
    case False
    then show ?thesis using first s s0 by (simp add: e_def)
  next
    case True
    then have "2 ^ 53 * d0 \<le> (n0 div d0) * d0" by simp
    also have "\<dots> \<le> n0" by simp
    finally have h1: "2 ^ 53 * d0 * d \<le> n0 * d" by simp
    have h2: "n0 * d = 2 * n * d0"
      using s0 s True by (intro scaled_succ[of a b e0]) (simp_all add: e_def)
    have "(2 ^ 53 * d) * d0 = 2 ^ 53 * d0 * d" by (simp only: mult_ac)
    also have "\<dots> \<le> (2 * n) * d0" using h1 by (simp only: h2)
    finally have "2 ^ 53 * d \<le> 2 * n" using d0 by (simp only: mult_le_cancel2)
    then show ?thesis by simp
  qed
  have val: "roundRatio a b =
        (if 0 \<le> e then of_nat (m * 2 ^ nat e) else of_nat m / of_nat (2 ^ nat (- e)))"
  proof (cases "2 ^ 53 \<le> n0 div d0")
    case True
    then have "e = e0 + 1" by (simp add: e_def)
    then show ?thesis
      using assms(1) True s0 s unfolding e0_def m_def
      by (simp add: roundRatio_def Let_def)
  next
    case False
    then have "e = e0" by (simp add: e_def)
    then show ?thesis
      using assms(1) False s0 s unfolding e0_def m_def
      by (simp add: roundRatio_def Let_def)
  qed
  let ?R = "(of_nat a :: rat) / of_nat b" and ?x = "(of_nat n :: rat) / of_nat d"
  have "\<exists>sc::rat. 0 < sc \<and> roundRatio a b = of_nat m * sc \<and> ?R = ?x * sc"
  proof (cases "0 \<le> e")
    case True
    then have nd: "n = a" "d = b * 2 ^ nat e" using s by (auto simp: scaled_def)
    have "roundRatio a b = of_nat m * 2 ^ nat e" using True val by simp
    moreover have "?R = ?x * 2 ^ nat e" using assms(2) by (simp add: nd)
    ultimately show ?thesis by (intro exI[of _ "2 ^ nat e"]) simp
  next
    case False
    then have nd: "n = a * 2 ^ nat (- e)" "d = b" using s by (auto simp: scaled_def)
    have "roundRatio a b = of_nat m * (1 / 2 ^ nat (- e))" using False val by simp
    moreover have "?R = ?x * (1 / 2 ^ nat (- e))" by (simp add: nd)
    ultimately show ?thesis by (intro exI[of _ "1 / 2 ^ nat (- e)"]) simp
  qed
  then obtain sc :: rat where sc: "0 < sc" "roundRatio a b = of_nat m * sc" "?R = ?x * sc"
    by blast
  have err: "\<bar>of_nat m - ?x\<bar> \<le> 1 / 2"
    unfolding m_def using d by (rule roundHalfEven_error)
  have "(2::rat) ^ 52 * of_nat d \<le> of_nat n"
    using K by (metis of_nat_le_iff of_nat_mult of_nat_numeral of_nat_power)
  then have big: "(2::rat) ^ 52 \<le> ?x" using d by (simp add: pos_le_divide_eq)
  have "1 / 2 \<le> ?x / 2 ^ 53"
  proof -
    have "(1::rat) / 2 = 2 ^ 52 / 2 ^ 53" by simp
    also have "\<dots> \<le> ?x / 2 ^ 53" using big by (intro divide_right_mono) simp_all
    finally show ?thesis .
  qed
  with err have "\<bar>of_nat m - ?x\<bar> \<le> ?x / 2 ^ 53" by linarith
  then have "\<bar>of_nat m - ?x\<bar> * sc \<le> (?x / 2 ^ 53) * sc"
    using sc(1) by (intro mult_right_mono) simp_all
  moreover have "\<bar>roundRatio a b - ?R\<bar> = \<bar>of_nat m - ?x\<bar> * sc"
  proof -
    have "roundRatio a b - ?R = (of_nat m - ?x) * sc"
      unfolding sc(2) by (subst sc(3)) (rule left_diff_distrib[symmetric])
    then show ?thesis using sc(1) by (simp add: abs_mult)
  qed
  moreover have "(?x / 2 ^ 53) * sc = ?R / 2 ^ 53" unfolding sc(3) by simp
  ultimately show ?thesis by simp
qed

lemma roundRatio_close:
  assumes "0 < b"
  shows "\<bar>roundRatio a b - of_nat a / of_nat b\<bar> \<le> (of_nat a / of_nat b) / 2 ^ 53"
proof (cases "a = 0")
  case True
  then show ?thesis by (simp add: roundRatio_def)
next
  case False
  then show ?thesis using assms by (intro roundRatio_error) simp_all
qed

text \<open>Likewise \<open>roundToDouble n\<close> differs from \<open>n\<close> by at most the fraction \<open>2^-53\<close> of \<open>n\<close>.\<close>

lemma roundToDouble_close:
  "\<bar>(of_nat (roundToDouble n) :: rat) - of_nat n\<bar> \<le> of_nat n / 2 ^ 53"
proof (cases "n < 2 ^ 53")
  case True
  then show ?thesis by (simp add: roundToDouble_def)
next
  case False
  define e where "e = bitlen n - 53"
  define m where "m = roundHalfEven n (2 ^ e)"
  have pos: "0 < n" using False by (cases "n = 0") simp_all
  from bitlen_bounds[OF pos] have lo: "2 ^ (bitlen n - 1) \<le> n" and hi: "n < 2 ^ bitlen n"
    by simp_all
  have "54 \<le> bitlen n"
  proof (rule ccontr)
    assume "\<not> 54 \<le> bitlen n"
    then have "bitlen n \<le> 53" by simp
    then have "(2::nat) ^ bitlen n \<le> 2 ^ 53" by (rule power_increasing) simp
    with hi False show False by simp
  qed
  then have bl: "bitlen n - 1 = 52 + e" by (simp add: e_def)
  have K: "2 ^ 52 * 2 ^ e \<le> n" using lo unfolding bl by (simp only: power_add)
  have val: "roundToDouble n = m * 2 ^ e"
    using False by (simp add: roundToDouble_def Let_def e_def m_def)
  let ?x = "(of_nat n :: rat) / of_nat (2 ^ e)"
  have err: "\<bar>of_nat m - ?x\<bar> \<le> 1 / 2"
    unfolding m_def by (rule roundHalfEven_error) simp
  have "(2::rat) ^ 52 * of_nat (2 ^ e) \<le> of_nat n"
    using K by (metis of_nat_le_iff of_nat_mult of_nat_numeral of_nat_power)
  then have big: "(2::rat) ^ 52 \<le> ?x" by (simp add: pos_le_divide_eq)
  have "(1::rat) / 2 = 2 ^ 52 / 2 ^ 53" by simp
  also have "\<dots> \<le> ?x / 2 ^ 53" using big by (intro divide_right_mono) simp_all
  finally have "\<bar>of_nat m - ?x\<bar> \<le> ?x / 2 ^ 53" using err by linarith
  then have "\<bar>of_nat m - ?x\<bar> * 2 ^ e \<le> (?x / 2 ^ 53) * 2 ^ e"
    by (intro mult_right_mono) simp_all
  moreover have "(of_nat (roundToDouble n) :: rat) - of_nat n = (of_nat m - ?x) * 2 ^ e"
    unfolding val by (simp add: left_diff_distrib)
  then have "\<bar>(of_nat (roundToDouble n) :: rat) - of_nat n\<bar> = \<bar>of_nat m - ?x\<bar> * 2 ^ e"
    by (simp add: abs_mult)
  moreover have "(?x / 2 ^ 53) * 2 ^ e = of_nat n / 2 ^ 53" by simp
  ultimately show ?thesis by simp
qed

lemma roundRatio_nonneg: "0 \<le> roundRatio a b"
  by (simp add: roundRatio_def Let_def split: prod.splits)

lemma toFixed4_nearest:
  fixes q :: rat
  assumes "0 \<le> q"
  shows "\<bar>of_nat (nat \<lfloor>q * 10 ^ 4 + 1 / 2\<rfloor>) / 10 ^ 4 - q\<bar> \<le> 1 / (2 * 10 ^ 4)"
proof -
  let ?x = "q * 10 ^ 4 + 1 / 2"
  have nn: "0 \<le> \<lfloor>?x\<rfloor>" using assms by simp
  have n: "(of_nat (nat \<lfloor>?x\<rfloor>) :: rat) = of_int \<lfloor>?x\<rfloor>" using nn by simp
  have lo: "of_int \<lfloor>?x\<rfloor> \<le> ?x" by (rule of_int_floor_le)
  have hi: "?x < of_int \<lfloor>?x\<rfloor> + 1" by linarith
  have "\<bar>of_int \<lfloor>?x\<rfloor> - q * 10 ^ 4\<bar> \<le> 1 / 2" using lo hi by linarith
  then have "\<bar>(of_int \<lfloor>?x\<rfloor> - q * 10 ^ 4) / 10 ^ 4\<bar> \<le> (1 / 2) / 10 ^ 4"
    by (simp add: divide_right_mono)
  then show ?thesis unfolding n by (simp add: diff_divide_distrib)
qed

text \<open>
  Claim C10. The stats query never divides by zero and always answers a finite,
  non-negative participation rate. Without a snapshot it answers the defaults (stage 0, no
  voters, no votes, rate 0, no winner, proposal 0, last indexed block 0); with a snapshot it
  answers the snapshot's fields. With no voters the rate is 0. With voters the rate is the
  JavaScript quotient \<^verbatim>\<open>totalVotes / totalVoters\<close> printed by \<^verbatim>\<open>toFixed(4)\<close> and read back
  by \<^verbatim>\<open>Number\<close>: for the printed decimal \<open>n / 10^4\<close>, the rate is the number nearest to
  it (within the fraction \<open>2^-53\<close> of it), and \<open>n / 10^4\<close> differs from the JavaScript quotient
  by at most half a unit of the fourth decimal place, hence from the exact quotient by at
  most that plus the fraction \<open>2^-53\<close> of the quotient.
\<close>

theorem getStats_division_safe:
  "(ballotSnapshot d = None \<longrightarrow>
      st_stage (getStats d) = 0 \<and> st_totalVoters (getStats d) = 0
      \<and> st_totalVotes (getStats d) = 0 \<and> st_participationRate (getStats d) = Finite 0
      \<and> \<not> st_winnerComputed (getStats d) \<and> st_winnerProposalId (getStats d) = 0
      \<and> st_lastIndexedBlock (getStats d) = 0)
   \<and> (st_totalVoters (getStats d) = 0 \<longrightarrow> st_participationRate (getStats d) = Finite 0)
   \<and> (0 < st_totalVoters (getStats d) \<longrightarrow>
        js_div (st_totalVotes (getStats d)) (st_totalVoters (getStats d)) =
          Finite (roundRatio (st_totalVotes (getStats d)) (st_totalVoters (getStats d)))
        \<and> (\<exists>n. toFixed4 (js_div (st_totalVotes (getStats d)) (st_totalVoters (getStats d)))
                   = Fixed4 n
               \<and> st_participationRate (getStats d) = Finite (roundRatio n (10 ^ 4))
               \<and> \<bar>of_nat n / 10 ^ 4
                    - roundRatio (st_totalVotes (getStats d)) (st_totalVoters (getStats d))\<bar>
                   \<le> 1 / (2 * 10 ^ 4)
               \<and> \<bar>(of_nat n :: rat) / 10 ^ 4
                    - of_nat (st_totalVotes (getStats d)) / of_nat (st_totalVoters (getStats d))\<bar>
                   \<le> 1 / (2 * 10 ^ 4)
                      + (of_nat (st_totalVotes (getStats d))
                           / of_nat (st_totalVoters (getStats d))) / 2 ^ 53
               \<and> \<bar>roundRatio n (10 ^ 4) - of_nat n / 10 ^ 4\<bar> \<le> (of_nat n / 10 ^ 4) / 2 ^ 53))
   \<and> (\<exists>q. st_participationRate (getStats d) = Finite q \<and> 0 \<le> q)
   \<and> (\<forall>s. ballotSnapshot d = Some s \<longrightarrow>
        st_stage (getStats d) = stage s \<and> st_totalVoters (getStats d) = totalVoters s
        \<and> st_totalVotes (getStats d) = totalVotes s
        \<and> st_winnerComputed (getStats d) = winnerComputed s
        \<and> st_winnerProposalId (getStats d) = winningProposalId s
        \<and> st_lastIndexedBlock (getStats d) = lastIndexedBlock s)"
proof (intro conjI impI allI)
  assume pos: "0 < st_totalVoters (getStats d)"
  let ?a = "st_totalVotes (getStats d)" and ?b = "st_totalVoters (getStats d)"
  let ?n = "nat \<lfloor>roundRatio ?a ?b * 10 ^ 4 + 1 / 2\<rfloor>"
  show q: "js_div ?a ?b = Finite (roundRatio ?a ?b)"
    using pos by (simp add: js_div_def)
  have f: "toFixed4 (js_div ?a ?b) = Fixed4 ?n"
    unfolding q by (simp add: toFixed4_def)
  have r: "st_participationRate (getStats d) = NumberOfFixed (toFixed4 (js_div ?a ?b))"
    using pos by (simp add: getStats_def Let_def)
  have r': "st_participationRate (getStats d) = Finite (roundRatio ?n (10 ^ 4))"
    unfolding r f by (simp add: NumberOfFixed_def)
  have e: "\<bar>of_nat ?n / 10 ^ 4 - roundRatio ?a ?b\<bar> \<le> 1 / (2 * 10 ^ 4)"
    by (rule toFixed4_nearest) (rule roundRatio_nonneg)
  have c: "\<bar>roundRatio ?a ?b - of_nat ?a / of_nat ?b\<bar> \<le> (of_nat ?a / of_nat ?b) / 2 ^ 53"
    using pos by (rule roundRatio_close)
  have e': "\<bar>(of_nat ?n :: rat) / 10 ^ 4 - of_nat ?a / of_nat ?b\<bar>
              \<le> 1 / (2 * 10 ^ 4) + (of_nat ?a / of_nat ?b) / 2 ^ 53"
    using e c by linarith
  have "\<bar>roundRatio ?n (10 ^ 4) - of_nat ?n / of_nat (10 ^ 4)\<bar>
          \<le> (of_nat ?n / of_nat (10 ^ 4)) / 2 ^ 53"
    by (rule roundRatio_close) simp
  then have c': "\<bar>roundRatio ?n (10 ^ 4) - of_nat ?n / 10 ^ 4\<bar> \<le> (of_nat ?n / 10 ^ 4) / 2 ^ 53"
    by simp
  show "\<exists>n. toFixed4 (js_div ?a ?b) = Fixed4 n
               \<and> st_participationRate (getStats d) = Finite (roundRatio n (10 ^ 4))
               \<and> \<bar>of_nat n / 10 ^ 4 - roundRatio ?a ?b\<bar> \<le> 1 / (2 * 10 ^ 4)
               \<and> \<bar>(of_nat n :: rat) / 10 ^ 4 - of_nat ?a / of_nat ?b\<bar>
                   \<le> 1 / (2 * 10 ^ 4) + (of_nat ?a / of_nat ?b) / 2 ^ 53
               \<and> \<bar>roundRatio n (10 ^ 4) - of_nat n / 10 ^ 4\<bar> \<le> (of_nat n / 10 ^ 4) / 2 ^ 53"
    using f r' e e' c' by blast
next
  show "\<exists>q. st_participationRate (getStats d) = Finite q \<and> 0 \<le> q"
    by (simp add: getStats_def Let_def js_div_def toFixed4_def NumberOfFixed_def
          roundRatio_nonneg split: option.splits)
qed (simp_all add: getStats_def Let_def)

lemma roundRatio_2_3: "roundRatio 2 3 = 6004799503160661 / 9007199254740992"
proof -
  have "bitlen 2 = 2" "bitlen 3 = 2" by (simp_all add: bitlen.simps)
  then show ?thesis by (simp add: roundRatio_def scaled_def roundHalfEven_def Let_def)
qed

lemma roundRatio_6667: "roundRatio 6667 10000 = 6005099743135819 / 9007199254740992"
proof -
  have "bitlen 6667 = 13" "bitlen 10000 = 14" by (simp_all add: bitlen.simps)
  then show ?thesis by (simp add: roundRatio_def scaled_def roundHalfEven_def Let_def)
qed

text \<open>
  Two votes of three voters: the quotient prints as \<^verbatim>\<open>0.6667\<close>; and the empty store.
\<close>

theorem getStats_division_safe_witness:
  "st_participationRate (getStats twoOfThree) = Finite (6005099743135819 / 9007199254740992)
   \<and> toFixed4 (js_div 2 3) = Fixed4 6667
   \<and> st_participationRate (getStats emptyDb) = Finite 0
   \<and> st_lastIndexedBlock (getStats emptyDb) = 0"
proof -
  have v: "st_totalVoters (getStats twoOfThree) = 3" "st_totalVotes (getStats twoOfThree) = 2"
    by (simp_all add: getStats_def twoOfThree_def emptyDb_def)
  have pos: "0 < st_totalVoters (getStats twoOfThree)" using v by simp
  have "\<lfloor>roundRatio 2 3 * 10 ^ 4 + 1 / 2\<rfloor> = 6667"
    unfolding roundRatio_2_3 by (rule floor_unique) simp_all
  then have f: "toFixed4 (js_div 2 3) = Fixed4 6667"
    by (simp add: toFixed4_def js_div_def)
  from getStats_division_safe[of twoOfThree, THEN conjunct2, THEN conjunct2, THEN conjunct1,
      THEN mp, OF pos]
  obtain n where n: "toFixed4 (js_div 2 3) = Fixed4 n"
      "st_participationRate (getStats twoOfThree) = Finite (roundRatio n (10 ^ 4))"
    unfolding v by blast
  from n(1) f have "n = 6667" by simp
  with n(2) have a: "st_participationRate (getStats twoOfThree) =
                      Finite (6005099743135819 / 9007199254740992)"
    by (simp add: roundRatio_6667)
  have none: "ballotSnapshot emptyDb = None" by (simp add: emptyDb_def)
  from getStats_division_safe[of emptyDb, THEN conjunct1, THEN mp, OF none]
  have b: "st_participationRate (getStats emptyDb) = Finite 0"
    "st_lastIndexedBlock (getStats emptyDb) = 0"
    by simp_all
  show ?thesis using a f b by simp
qed

end
